theory Spec2Isabelle
  imports Complex_Main "HOL-Library.Char_ord" "HOL-Library.List_Lexorder"
begin

section \<open>JavaScript values used by the engine\<close>

text \<open>
  Numbers are modelled as real numbers: rounding, overflow to Infinity and the sign of
  zero are outside the model. Where the source can read a property that an object does
  not have, the value read is \<open>undefined\<close>; in arithmetic \<open>undefined\<close> becomes NaN
  and every comparison with NaN or \<open>undefined\<close> is false. Both are \<open>None\<close> here.
\<close>

type_synonym jsnum = "real option"

definition jadd :: "jsnum \<Rightarrow> jsnum \<Rightarrow> jsnum" where
  "jadd a b = (case a of None \<Rightarrow> None | Some p \<Rightarrow> (case b of None \<Rightarrow> None | Some q \<Rightarrow> Some (p + q)))"

definition jhalf :: "jsnum \<Rightarrow> jsnum" where
  "jhalf a = (case a of None \<Rightarrow> None | Some p \<Rightarrow> Some (p / 2))"

definition jgt :: "jsnum \<Rightarrow> jsnum \<Rightarrow> bool" where
  "jgt a b = (case a of None \<Rightarrow> False | Some p \<Rightarrow> (case b of None \<Rightarrow> False | Some q \<Rightarrow> p > q))"

definition jlt :: "jsnum \<Rightarrow> jsnum \<Rightarrow> bool" where
  "jlt a b = (case a of None \<Rightarrow> False | Some p \<Rightarrow> (case b of None \<Rightarrow> False | Some q \<Rightarrow> p < q))"

text \<open>Template-literal conversion of an integer, \<open>`${n}`\<close>.\<close>

fun digits :: "nat \<Rightarrow> string" where
  "digits n = (if n < 10 then [''0123456789'' ! n]
               else digits (n div 10) @ [''0123456789'' ! (n mod 10)])"

definition show_int :: "int \<Rightarrow> string" where
  "show_int i = (if i < 0 then CHR ''-'' # digits (nat (- i)) else digits (nat i))"

section \<open>PhysicsLayers\<close>

text \<open>
  A layer is passed as a name or as a numeric index
  (\<open>typeof layerA === "string" ? this.layers[layerA] : layerA\<close>). Indexes are integers.
  A name that the table \<open>layers\<close> does not list resolves to \<open>undefined\<close> (names of
  properties every object inherits, such as \<open>toString\<close>, are not modelled).
\<close>

datatype layer = LName string | LIndex int

definition layers :: "(string \<times> int) list" where
  "layers = [(''Default'', 0), (''Player'', 1), (''Enemy'', 2), (''PlayerBullet'', 3),
             (''EnemyBullet'', 4), (''Collectible'', 5), (''Environment'', 6), (''UI'', 7)]"

definition layerId :: "layer \<Rightarrow> int option" where
  "layerId l = (case l of LName n \<Rightarrow> map_of layers n | LIndex i \<Rightarrow> Some i)"

definition show_id :: "int option \<Rightarrow> string" where
  "show_id a = (case a of None \<Rightarrow> ''undefined'' | Some i \<Rightarrow> show_int i)"

definition id_le :: "int option \<Rightarrow> int option \<Rightarrow> bool" where
  "id_le a b = (case a of None \<Rightarrow> False | Some p \<Rightarrow> (case b of None \<Rightarrow> False | Some q \<Rightarrow> p \<le> q))"

definition getMatrixKey :: "int option \<Rightarrow> int option \<Rightarrow> string" where
  "getMatrixKey layerA layerB =
     (if id_le layerA layerB then show_id layerA @ ''-'' @ show_id layerB
      else show_id layerB @ ''-'' @ show_id layerA)"

type_synonym collision_matrix = "string \<rightharpoonup> bool"

definition setCollisionRule :: "collision_matrix \<Rightarrow> layer \<Rightarrow> layer \<Rightarrow> bool \<Rightarrow> collision_matrix" where
  "setCollisionRule m layerA layerB allowed =
     (let layerAId = layerId layerA; layerBId = layerId layerB;
          key = getMatrixKey layerAId layerBId
      in m(key \<mapsto> allowed))"

definition canCollide :: "collision_matrix \<Rightarrow> layer \<Rightarrow> layer \<Rightarrow> bool" where
  "canCollide m layerA layerB =
     (let layerAId = layerId layerA; layerBId = layerId layerB;
          key = getMatrixKey layerAId layerBId
      in case m key of None \<Rightarrow> False | Some v \<Rightarrow> v)"

definition initializeDefaults :: "collision_matrix \<Rightarrow> collision_matrix" where
  "initializeDefaults m0 =
     (let m1 = setCollisionRule m0 (LName ''Player'') (LName ''Enemy'') True;
          m2 = setCollisionRule m1 (LName ''Player'') (LName ''Collectible'') True;
          m3 = setCollisionRule m2 (LName ''Player'') (LName ''Environment'') True;
          m4 = setCollisionRule m3 (LName ''PlayerBullet'') (LName ''Enemy'') True;
          m5 = setCollisionRule m4 (LName ''EnemyBullet'') (LName ''Player'') True;
          m6 = setCollisionRule m5 (LName ''Enemy'') (LName ''Environment'') True;
          m7 = setCollisionRule m6 (LName ''PlayerBullet'') (LName ''Environment'') True
      in setCollisionRule m7 (LName ''EnemyBullet'') (LName ''Environment'') True)"

text \<open>The matrix after the call of \<open>initializeDefaults\<close> that follows the class.\<close>

definition default_matrix :: collision_matrix where
  "default_matrix = initializeDefaults Map.empty"

text \<open>A sequence of \<open>setCollisionRule\<close> calls, applied to a matrix from left to right.\<close>

fun setRules :: "collision_matrix \<Rightarrow> (layer \<times> layer \<times> bool) list \<Rightarrow> collision_matrix" where
  "setRules m [] = m"
| "setRules m ((a, b, v) # rs) = setRules (setCollisionRule m a b v) rs"

section \<open>Game objects and colliders\<close>

text \<open>
  The physics code reads a game object through \<open>id\<close>, \<open>active\<close>,
  \<open>transform\<close> and the two lookups \<open>getComponent(Collider)\<close> and
  \<open>getComponent(Player)\<close>; the record holds the results of the lookups as optional
  fields (\<open>None\<close> is the \<open>null\<close> the lookup returns). Field names carry a prefix,
  since \<open>x\<close>, \<open>id\<close> or \<open>top\<close> would hide variables and constants.
  Objects are shared by reference in the source. The model keeps them in a list, the
  \<open>gameObjects\<close> array of the scene, and a reference is an index into it, so an update
  through one reference is seen through every other.
\<close>

record vector2 =
  v_x :: real
  v_y :: real

record collider =
  c_enabled :: bool
  c_shape :: string
  c_width :: real
  c_height :: real
  c_isTrigger :: bool
  c_layer :: layer
  c_collidingWith :: "string list"
  c_previousCollisions :: "string list"

record player =
  p_velocity :: vector2

record gameobject =
  go_id :: string
  go_active :: bool
  go_position :: vector2
  go_rotation :: real
  go_scale :: vector2
  go_collider :: "collider option"
  go_player :: "player option"

record bounds =
  b_left :: real
  b_right :: real
  b_top :: real
  b_bottom :: real
  b_centerX :: real
  b_centerY :: real
  b_width :: real
  b_height :: real

text \<open>\<open>Collider.getBounds\<close>, for the collider \<open>c\<close> of the game object \<open>g\<close>.\<close>

definition getBounds :: "gameobject \<Rightarrow> collider \<Rightarrow> bounds" where
  "getBounds g c =
     (let pos = go_position g; scale = go_scale g;
          width = c_width c * v_x scale;
          height = c_height c * v_y scale
      in \<lparr> b_left = v_x pos - width / 2, b_right = v_x pos + width / 2,
           b_top = v_y pos - height / 2, b_bottom = v_y pos + height / 2,
           b_centerX = v_x pos, b_centerY = v_y pos,
           b_width = width, b_height = height \<rparr>)"

datatype error = TypeError | OutOfFuel

section \<open>PhysicsEngine.resolveCollision\<close>

text \<open>
  The class body of \<open>PhysicsEngine\<close> defines \<open>resolveCollision\<close> twice. A later
  method of the same name replaces the earlier one, so every call runs the second
  definition; it is the one named \<open>resolveCollision\<close> here. The first, which no call
  reaches, is \<open>resolveCollision_first\<close>. Reading \<open>isTrigger\<close> of a missing collider
  throws a TypeError.
\<close>

definition add_x :: "real \<Rightarrow> gameobject \<Rightarrow> gameobject" where
  "add_x d g = g\<lparr>go_position := (go_position g)\<lparr>v_x := v_x (go_position g) + d\<rparr>\<rparr>"

definition add_y :: "real \<Rightarrow> gameobject \<Rightarrow> gameobject" where
  "add_y d g = g\<lparr>go_position := (go_position g)\<lparr>v_y := v_y (go_position g) + d\<rparr>\<rparr>"

definition set_y :: "real \<Rightarrow> gameobject \<Rightarrow> gameobject" where
  "set_y v g = g\<lparr>go_position := (go_position g)\<lparr>v_y := v\<rparr>\<rparr>"

definition overlapX :: "bounds \<Rightarrow> bounds \<Rightarrow> real" where
  "overlapX boundsA boundsB =
     min (b_right boundsA - b_left boundsB) (b_right boundsB - b_left boundsA)"

definition overlapY :: "bounds \<Rightarrow> bounds \<Rightarrow> real" where
  "overlapY boundsA boundsB =
     min (b_bottom boundsA - b_top boundsB) (b_bottom boundsB - b_top boundsA)"

definition resolveCollision :: "gameobject list \<Rightarrow> nat \<Rightarrow> nat \<Rightarrow> error + gameobject list" where
  "resolveCollision objs a b =
     (case go_collider (objs ! a) of None \<Rightarrow> Inl TypeError | Some colliderA \<Rightarrow>
      (case go_collider (objs ! b) of None \<Rightarrow> Inl TypeError | Some colliderB \<Rightarrow>
        if c_isTrigger colliderA \<or> c_isTrigger colliderB then Inr objs
        else
          let boundsA = getBounds (objs ! a) colliderA;
              boundsB = getBounds (objs ! b) colliderB
          in if overlapX boundsA boundsB < overlapY boundsA boundsB then
               let moveX = (overlapX boundsA boundsB / 2)
                           * (if b_centerX boundsA < b_centerX boundsB then - 1 else 1);
                   objs1 = objs[a := add_x moveX (objs ! a)]
               in Inr (objs1[b := add_x (- moveX) (objs1 ! b)])
             else
               let moveY = (overlapY boundsA boundsB / 2)
                           * (if b_centerY boundsA < b_centerY boundsB then - 1 else 1);
                   objs1 = objs[a := add_y moveY (objs ! a)]
               in Inr (objs1[b := add_y (- moveY) (objs1 ! b)])))"

text \<open>
  The first definition. \<open>resolvePlayerPlatform\<close> is its body once \<open>player\<close> and
  \<open>platform\<close> are bound.
\<close>

definition zero_falling :: "gameobject \<Rightarrow> gameobject" where
  "zero_falling g =
     (case go_player g of None \<Rightarrow> g
      | Some playerComponent \<Rightarrow>
          if v_y (p_velocity playerComponent) > 0
          then g\<lparr>go_player := Some (playerComponent\<lparr>p_velocity := (p_velocity playerComponent)\<lparr>v_y := 0\<rparr>\<rparr>)\<rparr>
          else g)"

definition resolvePlayerPlatform :: "gameobject list \<Rightarrow> nat \<Rightarrow> nat \<Rightarrow> error + gameobject list" where
  "resolvePlayerPlatform objs player platform =
     (case go_collider (objs ! player) of None \<Rightarrow> Inl TypeError | Some pc \<Rightarrow>
      (case go_collider (objs ! platform) of None \<Rightarrow> Inl TypeError | Some fc \<Rightarrow>
        let playerBounds = getBounds (objs ! player) pc;
            platformBounds = getBounds (objs ! platform) fc
        in if overlapX playerBounds platformBounds > 2 \<and> overlapY playerBounds platformBounds > 2 then
             if overlapX playerBounds platformBounds < overlapY playerBounds platformBounds then
               let moveX = overlapX playerBounds platformBounds
                           * (if b_centerX playerBounds < b_centerX platformBounds then - 1 else 1)
               in Inr (objs[player := add_x (moveX * (1 / 2)) (objs ! player)])
             else if b_centerY playerBounds < b_centerY platformBounds then
               let objs1 = objs[player := set_y (b_top platformBounds - b_height playerBounds / 2) (objs ! player)]
               in Inr (objs1[player := zero_falling (objs1 ! player)])
             else Inr objs
           else Inr objs))"

definition resolveCollision_first :: "gameobject list \<Rightarrow> nat \<Rightarrow> nat \<Rightarrow> error + gameobject list" where
  "resolveCollision_first objs a b =
     (case go_collider (objs ! a) of None \<Rightarrow> Inl TypeError | Some colliderA \<Rightarrow>
      (case go_collider (objs ! b) of None \<Rightarrow> Inl TypeError | Some colliderB \<Rightarrow>
        if c_isTrigger colliderA \<or> c_isTrigger colliderB then Inr objs
        else if c_layer colliderA = LName ''Player'' \<and> c_layer colliderB = LName ''Platform''
          then resolvePlayerPlatform objs a b
        else if c_layer colliderB = LName ''Player'' \<and> c_layer colliderA = LName ''Platform''
          then resolvePlayerPlatform objs b a
        else Inr objs))"

text \<open>Objects for examples: a box collider of the given size and layer at a position.\<close>

definition box :: "real \<Rightarrow> real \<Rightarrow> layer \<Rightarrow> collider" where
  "box w h l = \<lparr> c_enabled = True, c_shape = ''box'', c_width = w, c_height = h,
                 c_isTrigger = False, c_layer = l, c_collidingWith = [],
                 c_previousCollisions = [] \<rparr>"

definition object_at :: "string \<Rightarrow> real \<Rightarrow> real \<Rightarrow> collider \<Rightarrow> player option \<Rightarrow> gameobject" where
  "object_at i px py c p = \<lparr> go_id = i, go_active = True, go_position = \<lparr> v_x = px, v_y = py \<rparr>,
                            go_rotation = 0, go_scale = \<lparr> v_x = 1, v_y = 1 \<rparr>,
                            go_collider = Some c, go_player = p \<rparr>"

definition player_on_platform :: "gameobject list" where
  "player_on_platform =
     [object_at ''id-player'' 0 0 (box 32 32 (LName ''Player''))
        (Some \<lparr> p_velocity = \<lparr> v_x = 0, v_y = 50 \<rparr> \<rparr>),
      object_at ''id-platform'' 0 30 (box 200 40 (LName ''Platform'')) None]"

definition grazing_boxes :: "gameobject list" where
  "grazing_boxes =
     [object_at ''id-player'' 0 0 (box 32 32 (LName ''Player'')) None,
      object_at ''id-platform'' 31 0 (box 32 32 (LName ''Platform'')) None]"

section \<open>Quadtree\<close>

text \<open>
  \<open>intersects\<close> reads the properties \<open>x\<close>, \<open>y\<close>, \<open>width\<close> and
  \<open>height\<close> of its two arguments; a \<open>rect\<close> holds what each read returns. An item is
  \<open>{ object, bounds }\<close>, the object being a reference. The thresholds \<open>maxObjects\<close>
  and \<open>maxDepth\<close> are natural numbers. The constructor is always called with a bounds
  object, so the test \<open>!this.bounds\<close> of \<open>insert\<close> is never true and has no branch.
\<close>

record rect =
  r_x :: jsnum
  r_y :: jsnum
  r_width :: jsnum
  r_height :: jsnum

record item =
  it_object :: nat
  it_bounds :: rect

datatype quadtree =
  Quadtree (qt_bounds: rect) (qt_maxObjects: nat) (qt_maxDepth: nat) (qt_depth: nat)
           (qt_objects: "item list") (qt_nodes: "quadtree list") (qt_divided: bool)

definition new_Quadtree :: "rect \<Rightarrow> nat \<Rightarrow> nat \<Rightarrow> nat \<Rightarrow> quadtree" where
  "new_Quadtree bnds maxObjects maxDepth depth = Quadtree bnds maxObjects maxDepth depth [] [] False"

definition intersects :: "rect \<Rightarrow> rect \<Rightarrow> bool" where
  "intersects boundsA boundsB =
     (\<not> (jgt (r_x boundsA) (jadd (r_x boundsB) (r_width boundsB))
         \<or> jlt (jadd (r_x boundsA) (r_width boundsA)) (r_x boundsB)
         \<or> jgt (r_y boundsA) (jadd (r_y boundsB) (r_height boundsB))
         \<or> jlt (jadd (r_y boundsA) (r_height boundsA)) (r_y boundsB)))"

definition subdivide :: "quadtree \<Rightarrow> quadtree" where
  "subdivide t =
     (let x = r_x (qt_bounds t); y = r_y (qt_bounds t);
          w = jhalf (r_width (qt_bounds t)); h = jhalf (r_height (qt_bounds t));
          child = (\<lambda>cx cy. new_Quadtree \<lparr> r_x = cx, r_y = cy, r_width = w, r_height = h \<rparr>
                             (qt_maxObjects t) (qt_maxDepth t) (qt_depth t + 1))
      in Quadtree (qt_bounds t) (qt_maxObjects t) (qt_maxDepth t) (qt_depth t) (qt_objects t)
           [child x y, child (jadd x w) y, child x (jadd y h), child (jadd x w) (jadd y h)]
           True)"

definition push_object :: "quadtree \<Rightarrow> item \<Rightarrow> quadtree" where
  "push_object t it = Quadtree (qt_bounds t) (qt_maxObjects t) (qt_maxDepth t) (qt_depth t)
                        (qt_objects t @ [it]) (qt_nodes t) (qt_divided t)"

definition with_nodes :: "quadtree \<Rightarrow> quadtree list \<Rightarrow> quadtree" where
  "with_nodes t ns = Quadtree (qt_bounds t) (qt_maxObjects t) (qt_maxDepth t) (qt_depth t)
                       (qt_objects t) ns (qt_divided t)"

text \<open>
  \<open>insert\<close> returns whether the item was stored, and changes the tree. It calls itself
  on the children, which \<open>subdivide\<close> may just have created, so the recursion is not
  on the structure of the tree: with a threshold of 0 it never ends. The model counts
  the nesting of calls down from \<open>fuel\<close>; \<open>None\<close> is a call that did not return
  within it. \<open>insert_nodes\<close> is the loop over \<open>this.nodes\<close>.
\<close>

fun insert_qt :: "nat \<Rightarrow> quadtree \<Rightarrow> item \<Rightarrow> (bool \<times> quadtree) option"
  and insert_nodes :: "nat \<Rightarrow> quadtree list \<Rightarrow> item \<Rightarrow> (bool \<times> quadtree list) option" where
  "insert_qt 0 t it = None"
| "insert_qt (Suc fuel) t it =
     (if \<not> intersects (qt_bounds t) (it_bounds it) then Some (False, t)
      else if length (qt_objects t) < qt_maxObjects t \<and> \<not> qt_divided t
        then Some (True, push_object t it)
      else
        let t1 = (if \<not> qt_divided t then subdivide t else t)
        in (case insert_nodes fuel (qt_nodes t1) it of
              None \<Rightarrow> None
            | Some (stored, ns) \<Rightarrow>
                if stored then Some (True, with_nodes t1 ns)
                else Some (True, push_object (with_nodes t1 ns) it)))"
| "insert_nodes fuel [] it = Some (False, [])"
| "insert_nodes fuel (node # rest) it =
     (case insert_qt fuel node it of
        None \<Rightarrow> None
      | Some (stored, node') \<Rightarrow>
          if stored then Some (True, node' # rest)
          else (case insert_nodes fuel rest it of
                  None \<Rightarrow> None
                | Some (stored', rest') \<Rightarrow> Some (stored', node' # rest')))"

fun retrieve :: "quadtree \<Rightarrow> rect \<Rightarrow> item list" where
  "retrieve (Quadtree bnds maxObjects maxDepth depth objs ns dv) searchArea =
     (if \<not> intersects bnds searchArea then []
      else filter (\<lambda>it. intersects searchArea (it_bounds it)) objs
           @ (if dv then concat (map (\<lambda>node. retrieve node searchArea) ns) else []))"

text \<open>The greatest \<open>depth\<close> field among the nodes of a tree.\<close>

fun deepest :: "quadtree \<Rightarrow> nat" where
  "deepest (Quadtree bnds maxObjects maxDepth depth objs ns dv) =
     fold max (map deepest ns) depth"

text \<open>Inserting a list of items, one after the other, into a tree.\<close>

fun insert_items :: "nat \<Rightarrow> quadtree \<Rightarrow> item list \<Rightarrow> quadtree option" where
  "insert_items fuel t [] = Some t"
| "insert_items fuel t (it # its) =
     (case insert_qt fuel t it of None \<Rightarrow> None | Some (stored, t') \<Rightarrow> insert_items fuel t' its)"

section \<open>PhysicsEngine\<close>

text \<open>
  The pair map is a JavaScript \<open>Map\<close> from pair key to \<open>{ objA, objB }\<close>, kept as a
  list of entries in insertion order; the set of this tick's keys is a list without
  repetition. Ids are ASCII strings, compared as JavaScript compares strings.
\<close>

record physics_engine =
  pe_collisionPairs :: "(string \<times> nat \<times> nat) list"
  pe_quadtree :: "quadtree option"
  pe_quadtreeBounds :: rect
  pe_maxObjectsPerNode :: nat
  pe_maxDepth :: nat

definition new_PhysicsEngine :: physics_engine where
  "new_PhysicsEngine = \<lparr> pe_collisionPairs = [], pe_quadtree = None,
     pe_quadtreeBounds = \<lparr> r_x = Some 0, r_y = Some 0, r_width = Some 2000, r_height = Some 2000 \<rparr>,
     pe_maxObjectsPerNode = 10, pe_maxDepth = 8 \<rparr>"

definition setQuadtreeSettings :: "physics_engine \<Rightarrow> nat \<Rightarrow> nat \<Rightarrow> physics_engine" where
  "setQuadtreeSettings e maxObjects maxDepth =
     e\<lparr>pe_maxObjectsPerNode := maxObjects, pe_maxDepth := maxDepth\<rparr>"

definition getPairKey :: "string \<Rightarrow> string \<Rightarrow> string" where
  "getPairKey idA idB = (if idA < idB then idA @ ''-'' @ idB else idB @ ''-'' @ idA)"

text \<open>
  \<open>updateQuadtree\<close> passes the object that \<open>getBounds\<close> returns as the bounds of the
  item. That object has the properties \<open>left\<close>, \<open>right\<close>, \<open>top\<close>, \<open>bottom\<close>,
  \<open>centerX\<close>, \<open>centerY\<close>, \<open>width\<close> and \<open>height\<close>, and neither \<open>x\<close> nor
  \<open>y\<close>: \<open>bounds_as_rect\<close> is what \<open>intersects\<close> reads from it.
  \<open>getCollisionCandidates\<close> builds its search area with all four properties.
\<close>

definition bounds_as_rect :: "bounds \<Rightarrow> rect" where
  "bounds_as_rect b = \<lparr> r_x = None, r_y = None,
                        r_width = Some (b_width b), r_height = Some (b_height b) \<rparr>"

fun insert_objects :: "nat \<Rightarrow> gameobject list \<Rightarrow> quadtree \<Rightarrow> nat list \<Rightarrow> error + quadtree" where
  "insert_objects fuel heap qt [] = Inr qt"
| "insert_objects fuel heap qt (obj # rest) =
     (if go_active (heap ! obj) then
        (case go_collider (heap ! obj) of
           None \<Rightarrow> insert_objects fuel heap qt rest
         | Some collider \<Rightarrow>
             if c_enabled collider then
               (case insert_qt fuel qt \<lparr> it_object = obj,
                       it_bounds = bounds_as_rect (getBounds (heap ! obj) collider) \<rparr> of
                  None \<Rightarrow> Inl OutOfFuel
                | Some (stored, qt') \<Rightarrow> insert_objects fuel heap qt' rest)
             else insert_objects fuel heap qt rest)
      else insert_objects fuel heap qt rest)"

definition updateQuadtree :: "nat \<Rightarrow> physics_engine \<Rightarrow> gameobject list \<Rightarrow> nat list \<Rightarrow> error + physics_engine" where
  "updateQuadtree fuel e heap objs =
     (case insert_objects fuel heap
             (new_Quadtree (pe_quadtreeBounds e) (pe_maxObjectsPerNode e) (pe_maxDepth e) 0) objs of
        Inl err \<Rightarrow> Inl err
      | Inr qt \<Rightarrow> Inr (e\<lparr>pe_quadtree := Some qt\<rparr>))"

definition searchArea :: "bounds \<Rightarrow> rect" where
  "searchArea bnds = \<lparr> r_x = Some (b_left bnds), r_y = Some (b_top bnds),
                       r_width = Some (b_right bnds - b_left bnds),
                       r_height = Some (b_bottom bnds - b_top bnds) \<rparr>"

definition getCollisionCandidates :: "physics_engine \<Rightarrow> gameobject list \<Rightarrow> nat \<Rightarrow> nat list" where
  "getCollisionCandidates e heap obj =
     (case pe_quadtree e of None \<Rightarrow> []
      | Some qt \<Rightarrow>
        (case go_collider (heap ! obj) of None \<Rightarrow> []
         | Some collider \<Rightarrow>
             map it_object (retrieve qt (searchArea (getBounds (heap ! obj) collider)))))"

text \<open>
  The first two steps of \<open>update\<close> for one object: rebuild the quadtree from the
  objects of the scene, then ask it for the candidates of \<open>obj\<close>.
\<close>

definition candidates_after :: "nat \<Rightarrow> physics_engine \<Rightarrow> gameobject list \<Rightarrow> nat list \<Rightarrow> nat \<Rightarrow> error + nat list" where
  "candidates_after fuel e heap objs obj =
     (case updateQuadtree fuel e heap objs of
        Inl err \<Rightarrow> Inl err
      | Inr e' \<Rightarrow> Inr (getCollisionCandidates e' heap obj))"



text \<open>Examples: a small quadtree region, items with full bounds, two overlapping
  boxes left of and above the default world of the engine.\<close>

definition small_world :: rect where
  "small_world = \<lparr> r_x = Some 0, r_y = Some 0, r_width = Some 100, r_height = Some 100 \<rparr>"

definition item_at :: "nat \<Rightarrow> real \<Rightarrow> real \<Rightarrow> item" where
  "item_at obj px py = \<lparr> it_object = obj,
     it_bounds = \<lparr> r_x = Some px, r_y = Some py, r_width = Some 5, r_height = Some 5 \<rparr> \<rparr>"


definition inside_pair :: "gameobject list" where
  "inside_pair =
     [object_at ''id-a'' 100 100 (box 32 32 (LName ''Player'')) None,
      object_at ''id-b'' 110 100 (box 32 32 (LName ''Enemy'')) None]"


definition checkCollision :: "gameobject list \<Rightarrow> nat \<Rightarrow> nat \<Rightarrow> bool" where
  "checkCollision heap a b =
     (case go_collider (heap ! a) of None \<Rightarrow> False | Some colliderA \<Rightarrow>
      (case go_collider (heap ! b) of None \<Rightarrow> False | Some colliderB \<Rightarrow>
         let boundsA = getBounds (heap ! a) colliderA;
             boundsB = getBounds (heap ! b) colliderB
         in \<not> (b_right boundsA < b_left boundsB \<or> b_left boundsA > b_right boundsB
               \<or> b_bottom boundsA < b_top boundsB \<or> b_top boundsA > b_bottom boundsB)))"

section \<open>PhysicsEngine.update\<close>

text \<open>
  The callbacks \<open>onCollisionEnter\<close>, \<open>onCollisionExit\<close> and \<open>onMessage\<close> are
  the empty methods of \<open>Component\<close>; a call is recorded in a log, with the object
  whose collider receives it first. \<open>Collider.onCollision\<close> sends the message
  \<open>collision\<close> to its game object and, for an object it has not met yet, calls
  \<open>onCollisionEnter\<close> itself and remembers the id.
\<close>

datatype event =
  CollisionEnter nat nat
| CollisionExit nat nat
| SendMessage nat string nat

record physics_state =
  ps_engine :: physics_engine
  ps_heap :: "gameobject list"
  ps_log :: "event list"

definition emit :: "event \<Rightarrow> physics_state \<Rightarrow> physics_state" where
  "emit ev st = st\<lparr>ps_log := ps_log st @ [ev]\<rparr>"

definition onCollision :: "nat \<Rightarrow> nat \<Rightarrow> physics_state \<Rightarrow> error + physics_state" where
  "onCollision this other st =
     (case go_collider (ps_heap st ! this) of
        None \<Rightarrow> Inl TypeError
      | Some c \<Rightarrow>
          let st1 = emit (SendMessage this ''collision'' other) st
          in if go_id (ps_heap st ! other) \<notin> set (c_collidingWith c) then
               let st2 = emit (CollisionEnter this other) st1
               in Inr (st2\<lparr>ps_heap := (ps_heap st2)[this := (ps_heap st2 ! this)
                         \<lparr>go_collider := Some (c\<lparr>c_collidingWith :=
                              c_collidingWith c @ [go_id (ps_heap st ! other)]\<rparr>)\<rparr>]\<rparr>)
             else Inr st1)"

definition pairs_set :: "string \<Rightarrow> nat \<times> nat \<Rightarrow> (string \<times> nat \<times> nat) list \<Rightarrow> (string \<times> nat \<times> nat) list" where
  "pairs_set key pair pairs =
     (if map_of pairs key = None then pairs @ [(key, pair)]
      else map (\<lambda>entry. if fst entry = key then (key, pair) else entry) pairs)"

definition pairs_delete :: "string \<Rightarrow> (string \<times> nat \<times> nat) list \<Rightarrow> (string \<times> nat \<times> nat) list" where
  "pairs_delete key pairs = filter (\<lambda>entry. fst entry \<noteq> key) pairs"

definition with_pairs :: "(string \<times> nat \<times> nat) list \<Rightarrow> physics_state \<Rightarrow> physics_state" where
  "with_pairs pairs st = st\<lparr>ps_engine := (ps_engine st)\<lparr>pe_collisionPairs := pairs\<rparr>\<rparr>"

text \<open>The branch of the inner loop for a pair that overlaps.\<close>

definition overlapping_step :: "nat \<Rightarrow> nat \<Rightarrow> string \<Rightarrow> physics_state \<times> string list \<Rightarrow> error + physics_state \<times> string list" where
  "overlapping_step a b pairKey s =
     (let st = fst s;
          currentCollisions = List.insert pairKey (snd s);
          st1 = (if map_of (pe_collisionPairs (ps_engine st)) pairKey = None
                 then with_pairs (pairs_set pairKey (a, b) (pe_collisionPairs (ps_engine st)))
                        (emit (CollisionEnter b a) (emit (CollisionEnter a b) st))
                 else st)
      in case onCollision a b st1 of
           Inl err \<Rightarrow> Inl err
         | Inr st2 \<Rightarrow>
           (case onCollision b a st2 of
              Inl err \<Rightarrow> Inl err
            | Inr st3 \<Rightarrow>
              (case resolveCollision (ps_heap st3) a b of
                 Inl err \<Rightarrow> Inl err
               | Inr heap' \<Rightarrow> Inr (st3\<lparr>ps_heap := heap'\<rparr>, currentCollisions))))"

text \<open>The branch for a pair that does not overlap but has an entry in the pair map.\<close>

definition exit_step :: "string \<Rightarrow> nat \<times> nat \<Rightarrow> physics_state \<Rightarrow> physics_state" where
  "exit_step pairKey pair st =
     (let st1 = (if go_collider (ps_heap st ! fst pair) \<noteq> None
                 then emit (CollisionExit (fst pair) (snd pair)) st else st);
          st2 = (if go_collider (ps_heap st1 ! snd pair) \<noteq> None
                 then emit (CollisionExit (snd pair) (fst pair)) st1 else st1)
      in with_pairs (pairs_delete pairKey (pe_collisionPairs (ps_engine st2))) st2)"

text \<open>The body of the inner loop, for object \<open>a\<close> and its candidate \<open>b\<close>.\<close>

definition candidate_step :: "collision_matrix \<Rightarrow> nat \<Rightarrow> nat \<Rightarrow> physics_state \<times> string list \<Rightarrow> error + physics_state \<times> string list" where
  "candidate_step m a b s =
     (let heap = ps_heap (fst s)
      in if a = b \<or> \<not> go_active (heap ! b) then Inr s
         else
           (case go_collider (heap ! b) of
              None \<Rightarrow> Inl TypeError
            | Some colliderB \<Rightarrow>
                if \<not> c_enabled colliderB then Inr s
                else
                  (case go_collider (heap ! a) of
                     None \<Rightarrow> Inl TypeError
                   | Some colliderA \<Rightarrow>
                       if \<not> canCollide m (c_layer colliderA) (c_layer colliderB) then Inr s
                       else
                         let pairKey = getPairKey (go_id (heap ! a)) (go_id (heap ! b))
                         in if checkCollision heap a b then overlapping_step a b pairKey s
                            else
                              (case map_of (pe_collisionPairs (ps_engine (fst s))) pairKey of
                                 Some pair \<Rightarrow> Inr (exit_step pairKey pair (fst s), snd s)
                               | None \<Rightarrow> Inr s))))"

fun candidates_loop :: "collision_matrix \<Rightarrow> nat \<Rightarrow> nat list \<Rightarrow> physics_state \<times> string list \<Rightarrow> error + physics_state \<times> string list" where
  "candidates_loop m a [] s = Inr s"
| "candidates_loop m a (b # rest) s =
     (case candidate_step m a b s of
        Inl err \<Rightarrow> Inl err
      | Inr s' \<Rightarrow> candidates_loop m a rest s')"

fun objects_loop :: "collision_matrix \<Rightarrow> nat list \<Rightarrow> physics_state \<times> string list \<Rightarrow> error + physics_state \<times> string list" where
  "objects_loop m [] s = Inr s"
| "objects_loop m (a # rest) s =
     (if \<not> go_active (ps_heap (fst s) ! a) then objects_loop m rest s
      else
        (case go_collider (ps_heap (fst s) ! a) of
           None \<Rightarrow> Inl TypeError
         | Some colliderA \<Rightarrow>
             if \<not> c_enabled colliderA then objects_loop m rest s
             else
               (case candidates_loop m a
                       (getCollisionCandidates (ps_engine (fst s)) (ps_heap (fst s)) a) s of
                  Inl err \<Rightarrow> Inl err
                | Inr s' \<Rightarrow> objects_loop m rest s')))"

text \<open>
  \<open>update(scene)\<close>. The scene is \<open>null\<close> or the list of its game objects;
  \<open>PhysicsLayers.collisionMatrix\<close>, a static field, is the argument \<open>m\<close>.
\<close>

definition update :: "nat \<Rightarrow> collision_matrix \<Rightarrow> nat list option \<Rightarrow> physics_state \<Rightarrow> error + physics_state" where
  "update fuel m scene st =
     (case scene of
        None \<Rightarrow> Inr st
      | Some gameObjects \<Rightarrow>
          let collidableObjects = filter (\<lambda>obj. go_collider (ps_heap st ! obj) \<noteq> None) gameObjects
          in case updateQuadtree fuel (ps_engine st) (ps_heap st) collidableObjects of
               Inl err \<Rightarrow> Inl err
             | Inr e \<Rightarrow>
               (case objects_loop m collidableObjects (st\<lparr>ps_engine := e\<rparr>, []) of
                  Inl err \<Rightarrow> Inl err
                | Inr s \<Rightarrow>
                    Inr (with_pairs (filter (\<lambda>entry. fst entry \<in> set (snd s))
                                       (pe_collisionPairs (ps_engine (fst s)))) (fst s))))"

text \<open>
  What happens between two ticks is a change of the heap; \<open>then_update\<close> applies a
  change to the state a tick returned and runs the next tick.
\<close>

definition then_update :: "nat \<Rightarrow> collision_matrix \<Rightarrow> nat list option \<Rightarrow> (gameobject list \<Rightarrow> gameobject list)
    \<Rightarrow> error + physics_state \<Rightarrow> error + physics_state" where
  "then_update fuel m scene change r =
     (case r of Inl err \<Rightarrow> Inl err
      | Inr st \<Rightarrow> update fuel m scene (st\<lparr>ps_heap := change (ps_heap st), ps_log := []\<rparr>))"

definition log_of :: "error + physics_state \<Rightarrow> error + event list" where
  "log_of r = (case r of Inl err \<Rightarrow> Inl err | Inr st \<Rightarrow> Inr (ps_log st))"

definition pairs_of :: "error + physics_state \<Rightarrow> error + (string \<times> nat \<times> nat) list" where
  "pairs_of r = (case r of Inl err \<Rightarrow> Inl err | Inr st \<Rightarrow> Inr (pe_collisionPairs (ps_engine st)))"

definition setActive :: "nat \<Rightarrow> bool \<Rightarrow> gameobject list \<Rightarrow> gameobject list" where
  "setActive obj v heap = heap[obj := (heap ! obj)\<lparr>go_active := v\<rparr>]"

definition setEnabled :: "nat \<Rightarrow> bool \<Rightarrow> gameobject list \<Rightarrow> gameobject list" where
  "setEnabled obj v heap =
     heap[obj := (heap ! obj)\<lparr>go_collider := map_option (\<lambda>c. c\<lparr>c_enabled := v\<rparr>) (go_collider (heap ! obj))\<rparr>]"

definition moveTo :: "nat \<Rightarrow> real \<Rightarrow> real \<Rightarrow> gameobject list \<Rightarrow> gameobject list" where
  "moveTo obj px py heap = heap[obj := (heap ! obj)\<lparr>go_position := \<lparr> v_x = px, v_y = py \<rparr>\<rparr>]"

definition first_tick :: "error + physics_state" where
  "first_tick = update 1 default_matrix (Some [0, 1])
                  \<lparr> ps_engine = new_PhysicsEngine, ps_heap = inside_pair, ps_log = [] \<rparr>"



definition crowd :: "gameobject list" where
  "crowd = map (\<lambda>i. object_at (''id-'' @ digits i) 1500 1500 (box 32 32 (LName ''Player'')) None)
               [0 ..< 12]"

section \<open>InputManager and GameLoop\<close>

text \<open>
  Of the input manager the model keeps the two key maps. \<open>update\<close> copies \<open>keys\<close>
  into a new \<open>previousKeys\<close> (mouse buttons, touches and the gamepad poll are left
  out); it is \<open>input_update\<close> here, the name \<open>update\<close> being taken.
\<close>

record input_manager =
  im_keys :: "string \<rightharpoonup> bool"
  im_previousKeys :: "string \<rightharpoonup> bool"

definition or_false :: "bool option \<Rightarrow> bool" where
  "or_false v = (case v of None \<Rightarrow> False | Some b \<Rightarrow> b)"

definition isKeyPressed :: "input_manager \<Rightarrow> string \<Rightarrow> bool" where
  "isKeyPressed im keyCode = (or_false (im_keys im keyCode) \<and> \<not> or_false (im_previousKeys im keyCode))"

definition isKeyReleased :: "input_manager \<Rightarrow> string \<Rightarrow> bool" where
  "isKeyReleased im keyCode = (\<not> or_false (im_keys im keyCode) \<and> or_false (im_previousKeys im keyCode))"

definition input_update :: "input_manager \<Rightarrow> input_manager" where
  "input_update im = im\<lparr>im_previousKeys := im_keys im\<rparr>"

text \<open>
  The loop calls its collaborators in turn; the model records each call in a trace. Scene update,
  physics update and render may throw: \<open>throws\<close> says, of the trace that ends with a
  call, whether that call throws. The \<open>catch\<close> block reports through
  \<open>Debug.error\<close>.
\<close>

datatype loop_event =
  InputUpdate
| SceneUpdate real
| PhysicsUpdate
| Render
| DebugError
| RequestAnimationFrame

datatype outcome = Completed | Thrown

record gameloop =
  gl_isRunning :: bool
  gl_lastTime :: real
  gl_accumulator :: real
  gl_timeStep :: real
  gl_maxFrameTime :: real
  gl_fps :: nat
  gl_frameCount :: nat
  gl_lastFpsTime :: real

definition new_GameLoop :: gameloop where
  "new_GameLoop = \<lparr> gl_isRunning = False, gl_lastTime = 0, gl_accumulator = 0,
     gl_timeStep = 1000 / 60, gl_maxFrameTime = 250, gl_fps = 0, gl_frameCount = 0,
     gl_lastFpsTime = 0 \<rparr>"

text \<open>
  The \<open>while\<close> loop of \<open>_loop\<close>. It does not end when the time step is not
  positive; \<open>None\<close> is a loop that does not return.
\<close>

partial_function (option) drain :: "(loop_event list \<Rightarrow> bool) \<Rightarrow> real \<Rightarrow> real \<Rightarrow> loop_event list
    \<Rightarrow> (outcome \<times> real \<times> loop_event list) option" where
  "drain throws timeStep accumulator trace =
     (if accumulator \<ge> timeStep then
        if throws (trace @ [SceneUpdate (timeStep / 1000)])
        then Some (Thrown, accumulator, trace @ [SceneUpdate (timeStep / 1000)])
        else if throws (trace @ [SceneUpdate (timeStep / 1000), PhysicsUpdate])
        then Some (Thrown, accumulator, trace @ [SceneUpdate (timeStep / 1000), PhysicsUpdate])
        else drain throws timeStep (accumulator - timeStep)
               (trace @ [SceneUpdate (timeStep / 1000), PhysicsUpdate])
      else Some (Completed, accumulator, trace))"

declare drain.simps [code]

text \<open>The end of the \<open>try\<close> block and the \<open>catch\<close> block, after the loop.\<close>

definition render_or_catch :: "(loop_event list \<Rightarrow> bool) \<Rightarrow> outcome \<Rightarrow> loop_event list \<Rightarrow> loop_event list" where
  "render_or_catch throws out trace =
     (case out of
        Thrown \<Rightarrow> trace @ [DebugError]
      | Completed \<Rightarrow> if throws (trace @ [Render]) then trace @ [Render, DebugError] else trace @ [Render])"

text \<open>\<open>_loop(currentTime)\<close>, on the loop, the input manager and the trace.\<close>

definition loop :: "(loop_event list \<Rightarrow> bool) \<Rightarrow> real \<Rightarrow> gameloop \<times> input_manager \<times> loop_event list
    \<Rightarrow> (gameloop \<times> input_manager \<times> loop_event list) option" where
  "loop throws currentTime s =
     (let g = fst s; im = fst (snd s); trace = snd (snd s)
      in if \<not> gl_isRunning g then Some s
         else
           let deltaTime = currentTime - gl_lastTime g;
               deltaTime = (if deltaTime > gl_maxFrameTime g then gl_maxFrameTime g else deltaTime);
               g1 = g\<lparr>gl_lastTime := currentTime, gl_accumulator := gl_accumulator g + deltaTime\<rparr>;
               g2 = g1\<lparr>gl_frameCount := gl_frameCount g1 + 1\<rparr>;
               g3 = (if currentTime - gl_lastFpsTime g2 \<ge> 1000
                     then g2\<lparr>gl_fps := gl_frameCount g2, gl_frameCount := 0, gl_lastFpsTime := currentTime\<rparr>
                     else g2);
               im1 = input_update im
           in case drain throws (gl_timeStep g3) (gl_accumulator g3) (trace @ [InputUpdate]) of
                None \<Rightarrow> None
              | Some r \<Rightarrow>
                  Some (g3\<lparr>gl_accumulator := fst (snd r)\<rparr>,
                        input_update im1,
                        render_or_catch throws (fst r) (snd (snd r)) @ [RequestAnimationFrame, InputUpdate]))"

definition never :: "loop_event list \<Rightarrow> bool" where
  "never trace = False"

definition simulation_step :: "real \<Rightarrow> loop_event list" where
  "simulation_step timeStep = [SceneUpdate (timeStep / 1000), PhysicsUpdate]"

definition space_down :: input_manager where
  "space_down = \<lparr> im_keys = [''Space'' \<mapsto> True], im_previousKeys = Map.empty \<rparr>"

section \<open>GameObject as a container of components\<close>

text \<open>
  Components are objects shared between the list \<open>components\<close> and the buckets of
  \<open>componentCache\<close>, and compared by identity (\<open>indexOf\<close>): the model keeps them
  in a heap and the lists hold references. A class is known by its name, which is the
  key of the cache; \<open>comp_supers\<close> lists the names of the classes a component's class
  extends, so that \<open>instanceof\<close> is membership in its own class or one of those.
  \<open>entity\<close> holds the fields of \<open>GameObject\<close> that the component methods use.
  \<open>awake\<close> and \<open>onDestroy\<close> are the empty methods of \<open>Component\<close>, and logging is
  left out.
\<close>

record component =
  comp_class :: string
  comp_supers :: "string list"
  comp_gameObject :: "string option"
  comp_enabled :: bool
  comp_started :: bool

record entity =
  e_id :: string
  e_components :: "nat list"
  e_componentCache :: "string \<rightharpoonup> nat list"
  e_scene :: "string option"
  e_started :: bool

definition new_Component :: "string \<Rightarrow> string list \<Rightarrow> component" where
  "new_Component cls supers = \<lparr> comp_class = cls, comp_supers = supers, comp_gameObject = None,
                                 comp_enabled = True, comp_started = False \<rparr>"

definition new_GameObject :: "string \<Rightarrow> entity" where
  "new_GameObject i = \<lparr> e_id = i, e_components = [], e_componentCache = Map.empty,
                         e_scene = None, e_started = False \<rparr>"

definition instance_of :: "component \<Rightarrow> string \<Rightarrow> bool" where
  "instance_of obj cls = (cls = comp_class obj \<or> cls \<in> set (comp_supers obj))"

text \<open>
  \<open>Array.indexOf\<close> (-1 when absent) and \<open>splice(index, 1)\<close>, which counts a
  negative index from the end.
\<close>

fun indexOf :: "'a \<Rightarrow> 'a list \<Rightarrow> int" where
  "indexOf v [] = - 1"
| "indexOf v (x # xs) = (if x = v then 0 else (let i = indexOf v xs in if i < 0 then - 1 else i + 1))"

definition splice1 :: "int \<Rightarrow> 'a list \<Rightarrow> 'a list" where
  "splice1 index xs =
     (let len = int (length xs);
          start = (if index < 0 then max (len + index) 0 else min index len)
      in take (nat start) xs @ drop (nat start + 1) xs)"

definition bucket_push :: "(string \<rightharpoonup> nat list) \<Rightarrow> string \<Rightarrow> nat \<Rightarrow> (string \<rightharpoonup> nat list)" where
  "bucket_push cache className c =
     (let cache1 = (if cache className = None then cache(className \<mapsto> []) else cache)
      in case cache1 className of
           None \<Rightarrow> cache1
         | Some cached \<Rightarrow> cache1(className \<mapsto> cached @ [c]))"

definition addComponent :: "(nat \<Rightarrow> component) \<Rightarrow> entity \<Rightarrow> nat \<Rightarrow> (nat \<Rightarrow> component) \<times> entity \<times> nat option" where
  "addComponent h g c =
     (if comp_gameObject (h c) \<noteq> None then (h, g, None)
      else
        let h1 = h(c := (h c)\<lparr>comp_gameObject := Some (e_id g)\<rparr>);
            g1 = g\<lparr>e_components := e_components g @ [c]\<rparr>;
            className = comp_class (h1 c);
            g2 = g1\<lparr>e_componentCache := bucket_push (e_componentCache g1) className c\<rparr>;
            h2 = (if e_started g2 \<and> e_scene g2 \<noteq> None
                  then h1(c := (h1 c)\<lparr>comp_started := True\<rparr>) else h1)
        in (h2, g2, Some c))"

definition getComponent :: "(nat \<Rightarrow> component) \<Rightarrow> entity \<Rightarrow> string \<Rightarrow> entity \<times> nat option" where
  "getComponent h g className =
     (case e_componentCache g className of
        Some (first # others) \<Rightarrow> (g, Some first)
      | _ \<Rightarrow>
        (case find (\<lambda>c. instance_of (h c) className) (e_components g) of
           None \<Rightarrow> (g, None)
         | Some c \<Rightarrow> (g\<lparr>e_componentCache := bucket_push (e_componentCache g) className c\<rparr>, Some c)))"

definition purge :: "nat \<Rightarrow> nat list \<Rightarrow> nat list" where
  "purge c cachedComponents =
     (let cacheIndex = indexOf c cachedComponents
      in if cacheIndex > - 1 then splice1 cacheIndex cachedComponents else cachedComponents)"

definition removeComponent :: "(nat \<Rightarrow> component) \<Rightarrow> entity \<Rightarrow> string \<Rightarrow> (nat \<Rightarrow> component) \<times> entity" where
  "removeComponent h g className =
     (case getComponent h g className of
        (g1, None) \<Rightarrow> (h, g1)
      | (g1, Some c) \<Rightarrow>
          let index = indexOf c (e_components g1);
              g2 = g1\<lparr>e_components := splice1 index (e_components g1)\<rparr>;
              g3 = g2\<lparr>e_componentCache := (\<lambda>key. map_option (purge c) (e_componentCache g2 key))\<rparr>
          in (h(c := (h c)\<lparr>comp_gameObject := None\<rparr>), g3))"

text \<open>
  What holds of every game object built by these methods: attached components are
  distinct and owned; a bucket holds attached components, each once, all instances of
  its key; an attached component is in the bucket of its own class.
\<close>

definition cache_ok :: "(nat \<Rightarrow> component) \<Rightarrow> entity \<Rightarrow> bool" where
  "cache_ok h g =
     (distinct (e_components g)
      \<and> (\<forall>c \<in> set (e_components g). comp_gameObject (h c) \<noteq> None)
      \<and> (\<forall>key cached. e_componentCache g key = Some cached \<longrightarrow>
            distinct cached \<and> set cached \<subseteq> set (e_components g)
            \<and> (\<forall>c \<in> set cached. instance_of (h c) key))
      \<and> (\<forall>c \<in> set (e_components g).
            \<exists>cached. e_componentCache g (comp_class (h c)) = Some cached \<and> c \<in> set cached))"

text \<open>A heap for examples: a \<open>PlatformerPlayer\<close>, which extends \<open>Player\<close>, and a
  \<open>Collider\<close>; both extend \<open>Component\<close>.\<close>

definition example_heap :: "nat \<Rightarrow> component" where
  "example_heap = (\<lambda>r. new_Component ''Component'' [])
     (0 := new_Component ''PlatformerPlayer'' [''Player'', ''Component''],
      1 := new_Component ''Collider'' [''Component''])"

text \<open>A lookup misses the cache when the bucket of the key is absent or empty.\<close>

definition misses :: "entity \<Rightarrow> string \<Rightarrow> bool" where
  "misses g key = (e_componentCache g key = None \<or> e_componentCache g key = Some [])"

text \<open>Calls of the three methods, and a game object after a sequence of calls.\<close>

datatype container_op = AddComponent nat | GetComponent string | RemoveComponent string

fun apply_op :: "(nat \<Rightarrow> component) \<times> entity \<Rightarrow> container_op \<Rightarrow> (nat \<Rightarrow> component) \<times> entity" where
  "apply_op s (AddComponent c) = (fst (addComponent (fst s) (snd s) c), fst (snd (addComponent (fst s) (snd s) c)))"
| "apply_op s (GetComponent key) = (fst s, fst (getComponent (fst s) (snd s) key))"
| "apply_op s (RemoveComponent key) = removeComponent (fst s) (snd s) key"

definition example_entity :: "(nat \<Rightarrow> component) \<times> entity" where
  "example_entity = foldl apply_op (example_heap, new_GameObject ''id-1'') [AddComponent 1, AddComponent 0]"

section \<open>Layer matrix: results\<close>

lemma getMatrixKey_commute:
  assumes "a \<noteq> None" and "b \<noteq> None"
  shows "getMatrixKey a b = getMatrixKey b a"
proof -
  from assms obtain p q where "a = Some p" and "b = Some q" by auto
  then show ?thesis
    by (cases "p = q") (auto simp: getMatrixKey_def id_le_def)
qed

lemma canCollide_resolved_symmetric:
  assumes "layerId X \<noteq> None" and "layerId Y \<noteq> None"
  shows "canCollide m X Y = canCollide m Y X"
  using getMatrixKey_commute [OF assms] by (simp add: canCollide_def)

text \<open>
  C9. The claim: for all layers X and Y, given by name or numeric index, and after any
  sequence of \<open>setCollisionRule\<close> calls, \<open>canCollide(X, Y)\<close> equals
  \<open>canCollide(Y, X)\<close>. The code at the rule of the repository's own quick start,
  \<open>setCollisionRule('Player', 'Platform', true)\<close>: the name Platform is not in the
  table, the two orders build the keys \<open>undefined-1\<close> and \<open>1-undefined\<close>, and the
  rule is seen in one order only.
\<close>

theorem canCollide_Player_Platform_asymmetric:
  "canCollide (setRules default_matrix
                 [(LName ''Player'', LName ''Platform'', True)])
              (LName ''Player'') (LName ''Platform'') = True
   \<and> canCollide (setRules default_matrix
                 [(LName ''Player'', LName ''Platform'', True)])
              (LName ''Platform'') (LName ''Player'') = False
   \<and> getMatrixKey (layerId (LName ''Player'')) (layerId (LName ''Platform'')) = ''undefined-1''
   \<and> getMatrixKey (layerId (LName ''Platform'')) (layerId (LName ''Player'')) = ''1-undefined''"
  by (simp add: canCollide_def setCollisionRule_def default_matrix_def initializeDefaults_def
      getMatrixKey_def id_le_def show_id_def show_int_def layerId_def layers_def)

section \<open>Collision resolution: results\<close>

lemma resolveCollision_returns:
  assumes "go_collider (objs ! a) = Some colliderA" and "go_collider (objs ! b) = Some colliderB"
  shows "\<exists>objs'. resolveCollision objs a b = Inr objs'"
  using assms by (simp add: resolveCollision_def Let_def)

text \<open>
  C10. The resolution that runs (the second definition), on two distinct objects with
  solid colliders, returns; it leaves every other object as it was, and in the two
  objects it leaves id, active flag, rotation, scale, collider and player (with its
  velocity) as they were. Where the horizontal overlap is the smaller one, the vertical
  coordinates stay and the horizontal ones move by half that overlap, in opposite
  directions; otherwise (also on a tie) the same on the vertical axis.
\<close>

theorem resolveCollision_frame:
  assumes a: "a < length objs" and b: "b < length objs" and ab: "a \<noteq> b"
    and ca: "go_collider (objs ! a) = Some colliderA"
    and cb: "go_collider (objs ! b) = Some colliderB"
    and solid: "\<not> c_isTrigger colliderA" "\<not> c_isTrigger colliderB"
    and bA: "boundsA = getBounds (objs ! a) colliderA"
    and bB: "boundsB = getBounds (objs ! b) colliderB"
    and sx: "sx = (if b_centerX boundsA < b_centerX boundsB then - 1 else 1)"
    and sy: "sy = (if b_centerY boundsA < b_centerY boundsB then - 1 else 1)"
  shows "\<exists>objs'. resolveCollision objs a b = Inr objs'
     \<and> length objs' = length objs
     \<and> (\<forall>k. k \<noteq> a \<and> k \<noteq> b \<longrightarrow> objs' ! k = objs ! k)
     \<and> (\<forall>k. go_id (objs' ! k) = go_id (objs ! k) \<and> go_active (objs' ! k) = go_active (objs ! k)
            \<and> go_rotation (objs' ! k) = go_rotation (objs ! k)
            \<and> go_scale (objs' ! k) = go_scale (objs ! k)
            \<and> go_collider (objs' ! k) = go_collider (objs ! k)
            \<and> go_player (objs' ! k) = go_player (objs ! k))
     \<and> (if overlapX boundsA boundsB < overlapY boundsA boundsB
        then go_position (objs' ! a) = \<lparr> v_x = v_x (go_position (objs ! a)) + sx * (overlapX boundsA boundsB / 2),
                                        v_y = v_y (go_position (objs ! a)) \<rparr>
           \<and> go_position (objs' ! b) = \<lparr> v_x = v_x (go_position (objs ! b)) - sx * (overlapX boundsA boundsB / 2),
                                        v_y = v_y (go_position (objs ! b)) \<rparr>
        else go_position (objs' ! a) = \<lparr> v_x = v_x (go_position (objs ! a)),
                                        v_y = v_y (go_position (objs ! a)) + sy * (overlapY boundsA boundsB / 2) \<rparr>
           \<and> go_position (objs' ! b) = \<lparr> v_x = v_x (go_position (objs ! b)),
                                        v_y = v_y (go_position (objs ! b)) - sy * (overlapY boundsA boundsB / 2) \<rparr>)"
proof (cases "overlapX boundsA boundsB < overlapY boundsA boundsB")
  case True
  let ?m = "overlapX boundsA boundsB / 2 * sx"
  let ?objs1 = "objs[a := add_x ?m (objs ! a)]"
  let ?res = "?objs1[b := add_x (- ?m) (?objs1 ! b)]"
  have r: "resolveCollision objs a b = Inr ?res"
    using True ca cb solid bA bB sx by (simp add: resolveCollision_def Let_def)
  have frame: "\<And>k d. go_id (add_x d k) = go_id k \<and> go_active (add_x d k) = go_active k
      \<and> go_rotation (add_x d k) = go_rotation k \<and> go_scale (add_x d k) = go_scale k
      \<and> go_collider (add_x d k) = go_collider k \<and> go_player (add_x d k) = go_player k"
    by (simp add: add_x_def)
  have other: "\<forall>k. k \<noteq> a \<and> k \<noteq> b \<longrightarrow> ?res ! k = objs ! k" by simp
  have fields: "\<forall>k. go_id (?res ! k) = go_id (objs ! k) \<and> go_active (?res ! k) = go_active (objs ! k)
            \<and> go_rotation (?res ! k) = go_rotation (objs ! k)
            \<and> go_scale (?res ! k) = go_scale (objs ! k)
            \<and> go_collider (?res ! k) = go_collider (objs ! k)
            \<and> go_player (?res ! k) = go_player (objs ! k)"
  proof
    fix k
    show "go_id (?res ! k) = go_id (objs ! k) \<and> go_active (?res ! k) = go_active (objs ! k)
            \<and> go_rotation (?res ! k) = go_rotation (objs ! k)
            \<and> go_scale (?res ! k) = go_scale (objs ! k)
            \<and> go_collider (?res ! k) = go_collider (objs ! k)
            \<and> go_player (?res ! k) = go_player (objs ! k)"
      using a b ab frame by (cases "k = a"; cases "k = b") (simp_all add: nth_list_update)
  qed
  have pa: "go_position (?res ! a) = \<lparr> v_x = v_x (go_position (objs ! a)) + sx * (overlapX boundsA boundsB / 2),
                                        v_y = v_y (go_position (objs ! a)) \<rparr>"
    using a b ab by (simp add: add_x_def mult.commute)
  have pb: "go_position (?res ! b) = \<lparr> v_x = v_x (go_position (objs ! b)) - sx * (overlapX boundsA boundsB / 2),
                                        v_y = v_y (go_position (objs ! b)) \<rparr>"
    using a b ab by (simp add: add_x_def mult.commute)
  show ?thesis
    using r other fields pa pb True by (intro exI [of _ ?res]) simp
next
  case False
  let ?m = "overlapY boundsA boundsB / 2 * sy"
  let ?objs1 = "objs[a := add_y ?m (objs ! a)]"
  let ?res = "?objs1[b := add_y (- ?m) (?objs1 ! b)]"
  have r: "resolveCollision objs a b = Inr ?res"
    using False ca cb solid bA bB sy by (simp add: resolveCollision_def Let_def)
  have frame: "\<And>k d. go_id (add_y d k) = go_id k \<and> go_active (add_y d k) = go_active k
      \<and> go_rotation (add_y d k) = go_rotation k \<and> go_scale (add_y d k) = go_scale k
      \<and> go_collider (add_y d k) = go_collider k \<and> go_player (add_y d k) = go_player k"
    by (simp add: add_y_def)
  have other: "\<forall>k. k \<noteq> a \<and> k \<noteq> b \<longrightarrow> ?res ! k = objs ! k" by simp
  have fields: "\<forall>k. go_id (?res ! k) = go_id (objs ! k) \<and> go_active (?res ! k) = go_active (objs ! k)
            \<and> go_rotation (?res ! k) = go_rotation (objs ! k)
            \<and> go_scale (?res ! k) = go_scale (objs ! k)
            \<and> go_collider (?res ! k) = go_collider (objs ! k)
            \<and> go_player (?res ! k) = go_player (objs ! k)"
  proof
    fix k
    show "go_id (?res ! k) = go_id (objs ! k) \<and> go_active (?res ! k) = go_active (objs ! k)
            \<and> go_rotation (?res ! k) = go_rotation (objs ! k)
            \<and> go_scale (?res ! k) = go_scale (objs ! k)
            \<and> go_collider (?res ! k) = go_collider (objs ! k)
            \<and> go_player (?res ! k) = go_player (objs ! k)"
      using a b ab frame by (cases "k = a"; cases "k = b") (simp_all add: nth_list_update)
  qed
  have pa: "go_position (?res ! a) = \<lparr> v_x = v_x (go_position (objs ! a)),
                                        v_y = v_y (go_position (objs ! a)) + sy * (overlapY boundsA boundsB / 2) \<rparr>"
    using a b ab by (simp add: add_y_def mult.commute)
  have pb: "go_position (?res ! b) = \<lparr> v_x = v_x (go_position (objs ! b)),
                                        v_y = v_y (go_position (objs ! b)) - sy * (overlapY boundsA boundsB / 2) \<rparr>"
    using a b ab by (simp add: add_y_def mult.commute)
  show ?thesis
    using r other fields pa pb False by (intro exI [of _ ?res]) simp
qed


theorem resolveCollision_frame_witness:
  "(0::nat) < length player_on_platform \<and> (1::nat) < length player_on_platform \<and> (0::nat) \<noteq> 1
   \<and> go_collider (player_on_platform ! 0) = Some (box 32 32 (LName ''Player''))
   \<and> go_collider (player_on_platform ! 1) = Some (box 200 40 (LName ''Platform''))
   \<and> \<not> c_isTrigger (box 32 32 (LName ''Player''))
   \<and> \<not> c_isTrigger (box 200 40 (LName ''Platform''))
   \<and> (\<exists>objs'. resolveCollision player_on_platform 0 1 = Inr objs'
         \<and> length objs' = length player_on_platform
         \<and> go_player (objs' ! 0) = go_player (player_on_platform ! 0)
         \<and> go_position (objs' ! 0) = \<lparr> v_x = 0, v_y = - 3 \<rparr>
         \<and> go_position (objs' ! 1) = \<lparr> v_x = 0, v_y = 33 \<rparr>)"
proof -
  have h1: "(0::nat) < length player_on_platform" and h2: "(1::nat) < length player_on_platform"
    and h3: "(0::nat) \<noteq> 1"
    and h4: "go_collider (player_on_platform ! 0) = Some (box 32 32 (LName ''Player''))"
    and h5: "go_collider (player_on_platform ! 1) = Some (box 200 40 (LName ''Platform''))"
    and h6: "\<not> c_isTrigger (box 32 32 (LName ''Player''))"
    and h7: "\<not> c_isTrigger (box 200 40 (LName ''Platform''))"
    by (simp_all add: player_on_platform_def object_at_def box_def)
  have ov: "\<not> overlapX (getBounds (player_on_platform ! 0) (box 32 32 (LName ''Player'')))
                       (getBounds (player_on_platform ! 1) (box 200 40 (LName ''Platform'')))
            < overlapY (getBounds (player_on_platform ! 0) (box 32 32 (LName ''Player'')))
                       (getBounds (player_on_platform ! 1) (box 200 40 (LName ''Platform'')))"
    and oy: "overlapY (getBounds (player_on_platform ! 0) (box 32 32 (LName ''Player'')))
                       (getBounds (player_on_platform ! 1) (box 200 40 (LName ''Platform''))) = 6"
    and cy: "b_centerY (getBounds (player_on_platform ! 0) (box 32 32 (LName ''Player'')))
             < b_centerY (getBounds (player_on_platform ! 1) (box 200 40 (LName ''Platform'')))"
    and pos: "go_position (player_on_platform ! 0) = \<lparr> v_x = 0, v_y = 0 \<rparr>"
             "go_position (player_on_platform ! 1) = \<lparr> v_x = 0, v_y = 30 \<rparr>"
    by (simp_all add: player_on_platform_def object_at_def box_def getBounds_def
        overlapX_def overlapY_def)
  from resolveCollision_frame [OF h1 h2 h3 h4 h5 h6 h7 refl refl refl refl]
  obtain objs' where r: "resolveCollision player_on_platform 0 1 = Inr objs'"
    and l: "length objs' = length player_on_platform"
    and f: "go_player (objs' ! 0) = go_player (player_on_platform ! 0)"
    and p: "go_position (objs' ! 0) = \<lparr> v_x = 0, v_y = - 3 \<rparr>"
           "go_position (objs' ! 1) = \<lparr> v_x = 0, v_y = 33 \<rparr>"
    using ov oy cy pos by auto
  then show ?thesis using h1 h2 h4 h5 h6 h7 by auto
qed

text \<open>
  C3. The claim: on solid colliders of the layers Player and Platform,
  \<open>resolveCollision\<close> leaves the platform where it is, applies the whole correction
  to the player, and zeroes a downward velocity of a player that lands from above.
  A player of 32 by 32 at (0, 0), falling at 50, over a platform of 200 by 40 at
  (0, 30): the overlap is 6, on the vertical axis. The resolution that runs moves the
  player up by 3 and the platform down by 3 and leaves the velocity at 50. The first
  definition, which the second one replaces, does what the claim says: player at
  \<open>y = -6\<close>, velocity 0, platform untouched.
\<close>

theorem resolveCollision_player_platform_generic:
  "resolveCollision player_on_platform 0 1 =
     Inr [object_at ''id-player'' 0 (- 3) (box 32 32 (LName ''Player''))
            (Some \<lparr> p_velocity = \<lparr> v_x = 0, v_y = 50 \<rparr> \<rparr>),
          object_at ''id-platform'' 0 33 (box 200 40 (LName ''Platform'')) None]
   \<and> resolveCollision_first player_on_platform 0 1 =
     Inr [object_at ''id-player'' 0 (- 6) (box 32 32 (LName ''Player''))
            (Some \<lparr> p_velocity = \<lparr> v_x = 0, v_y = 0 \<rparr> \<rparr>),
          object_at ''id-platform'' 0 30 (box 200 40 (LName ''Platform'')) None]"
  by (simp add: player_on_platform_def resolveCollision_def resolveCollision_first_def
      resolvePlayerPlatform_def zero_falling_def set_y_def object_at_def box_def getBounds_def
      overlapX_def overlapY_def add_y_def add_x_def)

text \<open>
  C4. The claim: no position is corrected unless the overlap exceeds an epsilon of a
  couple of pixels. Two solid boxes of 32 by 32 at (0, 0) and (31, 0) overlap by 1 on
  the horizontal axis. The resolution that runs moves each by 0.5; the first
  definition, with its test \<open>overlapX > 2 && overlapY > 2\<close>, leaves both in place.
\<close>

theorem resolveCollision_below_epsilon:
  "overlapX (getBounds (grazing_boxes ! 0) (box 32 32 (LName ''Player'')))
            (getBounds (grazing_boxes ! 1) (box 32 32 (LName ''Platform''))) = 1
   \<and> resolveCollision grazing_boxes 0 1 =
     Inr [object_at ''id-player'' (- (1 / 2)) 0 (box 32 32 (LName ''Player'')) None,
          object_at ''id-platform'' (63 / 2) 0 (box 32 32 (LName ''Platform'')) None]
   \<and> resolveCollision_first grazing_boxes 0 1 = Inr grazing_boxes"
  by (simp add: grazing_boxes_def resolveCollision_def resolveCollision_first_def
      resolvePlayerPlatform_def object_at_def box_def getBounds_def
      overlapX_def overlapY_def add_y_def add_x_def)

section \<open>Quadtree: results\<close>

lemma insert_subdivides_only_when_full:
  assumes "insert_qt fuel t it = Some (stored, t')" and "\<not> qt_divided t" and "qt_divided t'"
  shows "qt_maxObjects t \<le> length (qt_objects t)"
  using assms
  by (cases fuel) (auto simp: push_object_def split: if_splits option.splits prod.splits)

text \<open>
  C7. The claim: a node subdivides only when it holds at least \<open>maxObjects\<close> items
  and has not yet hit the maximum depth, so no node is deeper than \<open>maxDepth\<close>.
  \<open>insert\<close> never reads \<open>maxDepth\<close>. A tree built with \<open>maxObjects = 1\<close> and
  \<open>maxDepth = 0\<close>, after two insertions of items at the same place: the root has
  subdivided and the second item sits in a child of depth 1.
\<close>

theorem insert_exceeds_maxDepth:
  "map_option deepest
     (insert_items 2 (new_Quadtree small_world 1 0 0) [item_at 0 10 10, item_at 1 10 10]) = Some 1
   \<and> map_option qt_maxDepth
     (insert_items 2 (new_Quadtree small_world 1 0 0) [item_at 0 10 10, item_at 1 10 10]) = Some 0
   \<and> map_option (map qt_depth \<circ> qt_nodes)
     (insert_items 2 (new_Quadtree small_world 1 0 0) [item_at 0 10 10, item_at 1 10 10])
     = Some [1, 1, 1, 1]
   \<and> map_option (map qt_objects \<circ> qt_nodes)
     (insert_items 2 (new_Quadtree small_world 1 0 0) [item_at 0 10 10, item_at 1 10 10])
     = Some [[item_at 1 10 10], [], [], []]"
  by code_simp

section \<open>Broad phase: results\<close>













text \<open>
  Beyond \<open>maxObjectsPerNode\<close> objects the items go to the first child whatever their
  place, since their bounds have no \<open>x\<close> and \<open>y\<close>: of twelve boxes at
  (1500, 1500), the last two are stored in the quadrant from (0, 0) to (1000, 1000)
  and are candidates of no object.
\<close>

lemma crowded_scene_omits_pair:
  "checkCollision crowd 10 11
   \<and> candidates_after 2 new_PhysicsEngine crowd [0, 1, 2, 3, 4, 5, 6, 7, 8, 9, 10, 11] 10
       = Inr [0, 1, 2, 3, 4, 5, 6, 7, 8, 9]
   \<and> candidates_after 2 new_PhysicsEngine crowd [0, 1, 2, 3, 4, 5, 6, 7, 8, 9, 10, 11] 11
       = Inr [0, 1, 2, 3, 4, 5, 6, 7, 8, 9]"
  by code_simp

section \<open>Collision pairs: results\<close>

text \<open>
  C1. The claim: for a pair that overlaps for some ticks and then stops,
  \<open>update\<close> fires \<open>onCollisionEnter\<close> on both colliders exactly once and
  \<open>onCollisionExit\<close> on both exactly once, also when the overlap ends because one
  side is deactivated or has its collider disabled. Two boxes of layers Player and
  Enemy overlap on the first tick. On that tick each collider receives
  \<open>onCollisionEnter\<close> twice, from \<open>update\<close> and from \<open>Collider.onCollision\<close>.
  When the second object is then deactivated, or its collider disabled, the next tick
  removes the pair in the final sweep and calls no \<open>onCollisionExit\<close>; when it is
  moved away instead, the branch of the inner loop calls it on both.
\<close>

theorem update_sweep_drops_exit:
  "log_of first_tick =
     Inr [CollisionEnter 0 1, CollisionEnter 1 0,
          SendMessage 0 ''collision'' 1, CollisionEnter 0 1,
          SendMessage 1 ''collision'' 0, CollisionEnter 1 0,
          SendMessage 1 ''collision'' 0, SendMessage 0 ''collision'' 1]
   \<and> pairs_of first_tick = Inr [(''id-a-id-b'', 0, 1)]
   \<and> log_of (then_update 1 default_matrix (Some [0, 1]) (setActive 1 False) first_tick)
       = Inr []
   \<and> pairs_of (then_update 1 default_matrix (Some [0, 1]) (setActive 1 False) first_tick)
       = Inr []
   \<and> log_of (then_update 1 default_matrix (Some [0, 1]) (setEnabled 1 False) first_tick)
       = Inr []
   \<and> pairs_of (then_update 1 default_matrix (Some [0, 1]) (setEnabled 1 False) first_tick)
       = Inr []
   \<and> log_of (then_update 1 default_matrix (Some [0, 1]) (moveTo 1 500 500) first_tick)
       = Inr [CollisionExit 0 1, CollisionExit 1 0]"
  by code_simp

section \<open>Game loop: results\<close>

lemma drain_steps:
  assumes ts: "0 < ts" and quiet: "\<And>l. \<not> throws l"
  shows "0 \<le> acc \<Longrightarrow> nat \<lfloor>acc / ts\<rfloor> = k \<Longrightarrow>
         drain throws ts acc trace =
           Some (Completed, acc - real k * ts, trace @ concat (replicate k (simulation_step ts)))"
proof (induction k arbitrary: acc trace)
  case 0
  then have "\<lfloor>acc / ts\<rfloor> \<le> 0" by simp
  then have "acc / ts < 1" by linarith
  then have "acc < ts" using ts by (simp add: field_simps)
  then show ?case by (subst drain.simps) simp
next
  case (Suc k)
  then have "1 \<le> \<lfloor>acc / ts\<rfloor>" by linarith
  then have "1 \<le> acc / ts" by linarith
  then have ge: "ts \<le> acc" using ts by (simp add: field_simps)
  have "(acc - ts) / ts = acc / ts - 1" using ts by (simp add: field_simps)
  then have "\<lfloor>(acc - ts) / ts\<rfloor> = \<lfloor>acc / ts\<rfloor> - 1" by simp
  then have k: "nat \<lfloor>(acc - ts) / ts\<rfloor> = k" using Suc.prems by simp
  have nn: "0 \<le> acc - ts" using ge by simp
  have "drain throws ts acc trace = drain throws ts (acc - ts) (trace @ simulation_step ts)"
    using ge quiet by (subst drain.simps) (simp add: simulation_step_def)
  also have "\<dots> = Some (Completed, acc - ts - real k * ts,
                        (trace @ simulation_step ts) @ concat (replicate k (simulation_step ts)))"
    by (rule Suc.IH [OF nn k])
  finally show ?case by (simp add: algebra_simps)
qed


lemma drain_adds_no_input_update:
  assumes "drain throws ts acc trace = Some r"
  shows "\<exists>steps. snd (snd r) = trace @ steps \<and> InputUpdate \<notin> set steps"
proof (rule drain.raw_induct
    [where P = "\<lambda>throws ts acc trace r. \<exists>steps. snd (snd r) = trace @ steps \<and> InputUpdate \<notin> set steps",
     OF _ assms])
  fix f :: "(loop_event list \<Rightarrow> bool) \<Rightarrow> real \<Rightarrow> real \<Rightarrow> loop_event list
            \<Rightarrow> (outcome \<times> real \<times> loop_event list) option"
  fix throws ts acc trace r
  assume IH: "\<And>th t a tr y. f th t a tr = Some y \<Longrightarrow>
                \<exists>steps. snd (snd y) = tr @ steps \<and> InputUpdate \<notin> set steps"
    and body: "(if ts \<le> acc
      then if throws (trace @ [SceneUpdate (ts / 1000)])
           then Some (Thrown, acc, trace @ [SceneUpdate (ts / 1000)])
           else if throws (trace @ [SceneUpdate (ts / 1000), PhysicsUpdate])
                then Some (Thrown, acc, trace @ [SceneUpdate (ts / 1000), PhysicsUpdate])
                else f throws ts (acc - ts) (trace @ [SceneUpdate (ts / 1000), PhysicsUpdate])
      else Some (Completed, acc, trace)) = Some r"
  show "\<exists>steps. snd (snd r) = trace @ steps \<and> InputUpdate \<notin> set steps"
  proof (cases "ts \<le> acc \<and> \<not> throws (trace @ [SceneUpdate (ts / 1000)])
                 \<and> \<not> throws (trace @ [SceneUpdate (ts / 1000), PhysicsUpdate])")
    case True
    with body have rec: "f throws ts (acc - ts) (trace @ [SceneUpdate (ts / 1000), PhysicsUpdate]) = Some r"
      by simp
    from IH [OF rec] obtain steps
      where "snd (snd r) = (trace @ [SceneUpdate (ts / 1000), PhysicsUpdate]) @ steps"
        and "InputUpdate \<notin> set steps" by blast
    then have "snd (snd r) = trace @ ([SceneUpdate (ts / 1000), PhysicsUpdate] @ steps)
               \<and> InputUpdate \<notin> set ([SceneUpdate (ts / 1000), PhysicsUpdate] @ steps)"
      by simp
    then show ?thesis by blast
  next
    case False
    with body have "snd (snd r) = trace @ [] \<or> snd (snd r) = trace @ [SceneUpdate (ts / 1000)]
                    \<or> snd (snd r) = trace @ [SceneUpdate (ts / 1000), PhysicsUpdate]"
      by (auto split: if_splits)
    moreover have "InputUpdate \<notin> set []" "InputUpdate \<notin> set [SceneUpdate (ts / 1000)]"
      "InputUpdate \<notin> set [SceneUpdate (ts / 1000), PhysicsUpdate]" by simp_all
    ultimately show ?thesis by blast
  qed
qed

lemma loop_updates_input_twice:
  assumes "gl_isRunning g" and "loop throws currentTime (g, im, trace) = Some (g', im', trace')"
  shows "count_list trace' InputUpdate = count_list trace InputUpdate + 2
         \<and> im' = input_update (input_update im)"
proof -
  let ?d = "if currentTime - gl_lastTime g > gl_maxFrameTime g then gl_maxFrameTime g
            else currentTime - gl_lastTime g"
  from assms obtain r where
    dr: "drain throws (gl_timeStep g) (gl_accumulator g + ?d) (trace @ [InputUpdate]) = Some r"
    and tr: "trace' = render_or_catch throws (fst r) (snd (snd r)) @ [RequestAnimationFrame, InputUpdate]"
    and im: "im' = input_update (input_update im)"
    by (auto simp: loop_def Let_def split: option.splits if_splits)
  from drain_adds_no_input_update [OF dr] obtain steps
    where st: "snd (snd r) = (trace @ [InputUpdate]) @ steps" and no: "InputUpdate \<notin> set steps"
    by blast
  have c0: "count_list steps InputUpdate = 0" using no by (simp add: count_list_0_iff)
  have "count_list (render_or_catch throws (fst r) (snd (snd r))) InputUpdate
        = count_list (snd (snd r)) InputUpdate"
    by (cases "fst r") (simp_all add: render_or_catch_def)
  then show ?thesis using tr st c0 im by simp
qed

lemma input_update_clears_pressed: "\<not> isKeyPressed (input_update im) keyCode"
  by (simp add: isKeyPressed_def input_update_def)

text \<open>
  C5. The claim: each callback advances the edge state of the input manager exactly
  once. A running loop with the default step of 1000/60 ms, called 40 ms after the
  last callback while Space is newly down: the trace holds \<open>InputUpdate\<close> twice,
  before the first simulation step and after the next frame is requested. The first
  call copies \<open>keys\<close> into \<open>previousKeys\<close> before any step runs, so the press
  that \<open>isKeyPressed\<close> reported is gone when the steps read it.
\<close>

theorem loop_updates_input_twice_at_40ms:
  "loop never 40 (new_GameLoop\<lparr>gl_isRunning := True\<rparr>, space_down, []) =
     Some (new_GameLoop\<lparr>gl_isRunning := True, gl_lastTime := 40, gl_accumulator := 20 / 3,
                        gl_frameCount := 1\<rparr>,
           input_update (input_update space_down),
           [InputUpdate, SceneUpdate (1 / 60), PhysicsUpdate, SceneUpdate (1 / 60), PhysicsUpdate,
            Render, RequestAnimationFrame, InputUpdate])
   \<and> isKeyPressed space_down ''Space''
   \<and> \<not> isKeyPressed (input_update space_down) ''Space''"
proof -
  have d: "drain never (1000 / 60) 40 [InputUpdate] =
           Some (Completed, 40 - real 2 * (1000 / 60),
                 [InputUpdate] @ concat (replicate 2 (simulation_step (1000 / 60))))"
    by (rule drain_steps) (simp_all add: never_def)
  have "loop never 40 (new_GameLoop\<lparr>gl_isRunning := True\<rparr>, space_down, []) =
     Some (new_GameLoop\<lparr>gl_isRunning := True, gl_lastTime := 40, gl_accumulator := 20 / 3,
                        gl_frameCount := 1\<rparr>,
           input_update (input_update space_down),
           [InputUpdate, SceneUpdate (1 / 60), PhysicsUpdate, SceneUpdate (1 / 60), PhysicsUpdate,
            Render, RequestAnimationFrame, InputUpdate])"
    using d by (simp add: loop_def new_GameLoop_def render_or_catch_def never_def
        simulation_step_def numeral_2_eq_2)
  moreover have "isKeyPressed space_down ''Space'' \<and> \<not> isKeyPressed (input_update space_down) ''Space''"
    by (simp add: isKeyPressed_def input_update_def space_down_def or_false_def)
  ultimately show ?thesis by simp
qed





section \<open>Component lookup: results\<close>

lemma indexOf_absent: "v \<notin> set xs \<Longrightarrow> indexOf v xs = - 1"
  by (induction xs) (auto simp: Let_def)

lemma splice1_nat: "n \<le> length xs \<Longrightarrow> splice1 (int n) xs = take n xs @ drop (Suc n) xs"
  by (simp add: splice1_def)

lemma indexOf_present:
  "v \<in> set xs \<Longrightarrow>
   \<exists>n. indexOf v xs = int n \<and> n < length xs \<and> take n xs @ drop (Suc n) xs = remove1 v xs"
proof (induction xs)
  case Nil
  then show ?case by simp
next
  case (Cons x xs)
  show ?case
  proof (cases "x = v")
    case True
    then have "indexOf v (x # xs) = int 0 \<and> 0 < length (x # xs)
               \<and> take 0 (x # xs) @ drop (Suc 0) (x # xs) = remove1 v (x # xs)"
      by simp
    then show ?thesis by blast
  next
    case False
    with Cons.prems have "v \<in> set xs" by simp
    from Cons.IH [OF this] obtain n where n: "indexOf v xs = int n" "n < length xs"
      "take n xs @ drop (Suc n) xs = remove1 v xs" by blast
    have "indexOf v (x # xs) = int (Suc n)" using False n(1) by simp
    moreover have "Suc n < length (x # xs)" using n(2) by simp
    moreover have "take (Suc n) (x # xs) @ drop (Suc (Suc n)) (x # xs) = remove1 v (x # xs)"
      using False n(3) by simp
    ultimately show ?thesis by blast
  qed
qed

lemma splice1_indexOf: "v \<in> set xs \<Longrightarrow> splice1 (indexOf v xs) xs = remove1 v xs"
  using indexOf_present [of v xs] splice1_nat [of _ xs] by fastforce

lemma purge_remove1: "purge c xs = remove1 c xs"
proof (cases "c \<in> set xs")
  case True
  from indexOf_present [OF True] obtain n where "indexOf c xs = int n" by blast
  then have "indexOf c xs > - 1" by simp
  then show ?thesis using splice1_indexOf [OF True] by (simp add: purge_def)
next
  case False
  then show ?thesis by (simp add: purge_def indexOf_absent remove1_idem)
qed

lemma find_only:
  assumes "c \<in> set xs" and "P c" and "\<forall>d \<in> set xs. P d \<longrightarrow> d = c"
  shows "find P xs = Some c"
  using assms
proof (induction xs)
  case Nil
  then show ?case by simp
next
  case (Cons x xs)
  show ?case
  proof (cases "P x")
    case True
    with Cons.prems(3) have "x = c" by simp
    then show ?thesis using True by simp
  next
    case False
    with Cons.prems(1,2) have "c \<in> set xs" by auto
    moreover from Cons.prems(3) have "\<forall>d \<in> set xs. P d \<longrightarrow> d = c" by simp
    ultimately have "find P xs = Some c" using Cons.IH Cons.prems(2) by blast
    then show ?thesis using False by simp
  qed
qed

lemma bucket_push_same:
  "bucket_push cache key c key = Some ((case cache key of None \<Rightarrow> [] | Some cached \<Rightarrow> cached) @ [c])"
  by (simp add: bucket_push_def split: option.splits)

lemma bucket_push_other: "k \<noteq> key \<Longrightarrow> bucket_push cache key c k = cache k"
  by (simp add: bucket_push_def split: option.splits)

lemma cache_ok_bucket:
  assumes "cache_ok h g" and "e_componentCache g key = Some cached" and "d \<in> set cached"
  shows "d \<in> set (e_components g)" and "instance_of (h d) key"
  using assms unfolding cache_ok_def by blast+

lemma cache_ok_bucket_distinct:
  assumes "cache_ok h g" and "e_componentCache g key = Some cached"
  shows "distinct cached"
  using assms unfolding cache_ok_def by blast

lemma cache_ok_own:
  assumes "cache_ok h g" and "d \<in> set (e_components g)"
  shows "\<exists>cached. e_componentCache g (comp_class (h d)) = Some cached \<and> d \<in> set cached"
  using assms unfolding cache_ok_def by blast

lemma cache_ok_components:
  assumes "cache_ok h g"
  shows "distinct (e_components g)" and "\<forall>c \<in> set (e_components g). comp_gameObject (h c) \<noteq> None"
  using assms unfolding cache_ok_def by blast+

lemma cache_okI:
  assumes "distinct (e_components g)"
    and "\<And>c. c \<in> set (e_components g) \<Longrightarrow> comp_gameObject (h c) \<noteq> None"
    and "\<And>key cached. e_componentCache g key = Some cached \<Longrightarrow> distinct cached"
    and "\<And>key cached d. e_componentCache g key = Some cached \<Longrightarrow> d \<in> set cached
           \<Longrightarrow> d \<in> set (e_components g) \<and> instance_of (h d) key"
    and "\<And>d. d \<in> set (e_components g)
           \<Longrightarrow> \<exists>cached. e_componentCache g (comp_class (h d)) = Some cached \<and> d \<in> set cached"
  shows "cache_ok h g"
  unfolding cache_ok_def using assms by blast

lemma getComponent_hit:
  "e_componentCache g key = Some (first # others) \<Longrightarrow> getComponent h g key = (g, Some first)"
  by (simp add: getComponent_def)

lemma getComponent_miss:
  "misses g key \<Longrightarrow>
   getComponent h g key =
     (case find (\<lambda>c. instance_of (h c) key) (e_components g) of
        None \<Rightarrow> (g, None)
      | Some c \<Rightarrow> (g\<lparr>e_componentCache := bucket_push (e_componentCache g) key c\<rparr>, Some c))"
  by (auto simp: getComponent_def misses_def)

lemma hit_or_miss:
  "misses g key \<or> (\<exists>first others. e_componentCache g key = Some (first # others))"
proof (cases "e_componentCache g key")
  case None
  then show ?thesis by (simp add: misses_def)
next
  case (Some cached)
  then show ?thesis by (cases cached) (simp_all add: misses_def)
qed

text \<open>A lookup that misses the cache and finds a component keeps the invariant.\<close>

lemma cache_ok_push:
  assumes ok: "cache_ok h g" and miss: "misses g key"
    and c: "c \<in> set (e_components g)" "instance_of (h c) key"
  shows "cache_ok h (g\<lparr>e_componentCache := bucket_push (e_componentCache g) key c\<rparr>)"
proof (rule cache_okI)
  let ?g = "g\<lparr>e_componentCache := bucket_push (e_componentCache g) key c\<rparr>"
  have same: "e_componentCache ?g key = Some [c]"
    using miss by (auto simp: bucket_push_same misses_def)
  have other: "\<And>k. k \<noteq> key \<Longrightarrow> e_componentCache ?g k = e_componentCache g k"
    by (simp add: bucket_push_other)
  have comps: "e_components ?g = e_components g" by simp
  show "distinct (e_components ?g)" using cache_ok_components(1) [OF ok] by simp
  show "\<And>d. d \<in> set (e_components ?g) \<Longrightarrow> comp_gameObject (h d) \<noteq> None"
    using cache_ok_components(2) [OF ok] by simp
  show "\<And>k cached. e_componentCache ?g k = Some cached \<Longrightarrow> distinct cached"
  proof -
    fix k cached assume kc: "e_componentCache ?g k = Some cached"
    show "distinct cached"
    proof (cases "k = key")
      case True
      with kc same show ?thesis by simp
    next
      case False
      with kc other have "e_componentCache g k = Some cached" by simp
      then show ?thesis using cache_ok_bucket_distinct [OF ok] by blast
    qed
  qed
  show "\<And>k cached d. e_componentCache ?g k = Some cached \<Longrightarrow> d \<in> set cached
           \<Longrightarrow> d \<in> set (e_components ?g) \<and> instance_of (h d) k"
  proof -
    fix k cached d assume kc: "e_componentCache ?g k = Some cached" and d: "d \<in> set cached"
    show "d \<in> set (e_components ?g) \<and> instance_of (h d) k"
    proof (cases "k = key")
      case True
      with kc same d have "d = c" by simp
      then show ?thesis using c True by simp
    next
      case False
      with kc other have "e_componentCache g k = Some cached" by simp
      then show ?thesis using cache_ok_bucket [OF ok _ d] by simp
    qed
  qed
  show "\<And>d. d \<in> set (e_components ?g)
           \<Longrightarrow> \<exists>cached. e_componentCache ?g (comp_class (h d)) = Some cached \<and> d \<in> set cached"
  proof -
    fix d assume d: "d \<in> set (e_components ?g)"
    then have d': "d \<in> set (e_components g)" by simp
    from cache_ok_own [OF ok d'] obtain cached
      where oc: "e_componentCache g (comp_class (h d)) = Some cached" "d \<in> set cached" by blast
    then have "comp_class (h d) \<noteq> key" using miss by (auto simp: misses_def)
    then show "\<exists>cached. e_componentCache ?g (comp_class (h d)) = Some cached \<and> d \<in> set cached"
      using other oc by simp
  qed
qed

lemma cache_ok_getComponent:
  assumes ok: "cache_ok h g"
  shows "cache_ok h (fst (getComponent h g key))"
    and "e_components (fst (getComponent h g key)) = e_components g"
    and "e_id (fst (getComponent h g key)) = e_id g"
proof -
  have "cache_ok h (fst (getComponent h g key))
        \<and> e_components (fst (getComponent h g key)) = e_components g
        \<and> e_id (fst (getComponent h g key)) = e_id g"
  proof (cases "misses g key")
    case False
    with hit_or_miss [of g key] obtain first others
      where "e_componentCache g key = Some (first # others)" by blast
    then show ?thesis using ok by (simp add: getComponent_hit)
  next
    case True
    show ?thesis
    proof (cases "find (\<lambda>c. instance_of (h c) key) (e_components g)")
      case None
      then show ?thesis using ok True by (simp add: getComponent_miss)
    next
      case (Some c)
      then have "c \<in> set (e_components g)" "instance_of (h c) key"
        by (auto simp: find_Some_iff)
      from cache_ok_push [OF ok True this] Some True show ?thesis
        by (simp add: getComponent_miss)
    qed
  qed
  then show "cache_ok h (fst (getComponent h g key))"
    and "e_components (fst (getComponent h g key)) = e_components g"
    and "e_id (fst (getComponent h g key)) = e_id g" by simp_all
qed

text \<open>With a single instance of the key among the components, the lookup returns it.\<close>

lemma getComponent_only:
  assumes ok: "cache_ok h g"
    and c: "c \<in> set (e_components g)" "instance_of (h c) key"
    and only: "\<forall>d \<in> set (e_components g). instance_of (h d) key \<longrightarrow> d = c"
  shows "snd (getComponent h g key) = Some c"
    and "\<exists>cached. e_componentCache (fst (getComponent h g key)) key = Some cached \<and> c \<in> set cached"
proof -
  have "snd (getComponent h g key) = Some c
    \<and> (\<exists>cached. e_componentCache (fst (getComponent h g key)) key = Some cached \<and> c \<in> set cached)"
  proof (cases "misses g key")
    case False
    with hit_or_miss [of g key] obtain first others
      where hit: "e_componentCache g key = Some (first # others)" by blast
    have "first \<in> set (first # others)" by simp
    from cache_ok_bucket [OF ok hit this] only have "first = c" by blast
    then show ?thesis using hit by (simp add: getComponent_hit)
  next
    case True
    have "find (\<lambda>c. instance_of (h c) key) (e_components g) = Some c"
      by (rule find_only [where P = "\<lambda>c. instance_of (h c) key", OF c(1) c(2) only])
    then show ?thesis using True by (simp add: getComponent_miss bucket_push_same)
  qed
  then show "snd (getComponent h g key) = Some c"
    and "\<exists>cached. e_componentCache (fst (getComponent h g key)) key = Some cached \<and> c \<in> set cached"
    by simp_all
qed

text \<open>Without an instance of the key among the components, the lookup returns null.\<close>

lemma getComponent_none:
  assumes ok: "cache_ok h g"
    and none: "\<forall>d \<in> set (e_components g). \<not> instance_of (h d) key"
  shows "getComponent h g key = (g, None)"
proof (cases "misses g key")
  case False
  with hit_or_miss [of g key] obtain first others
    where hit: "e_componentCache g key = Some (first # others)" by blast
  have "first \<in> set (first # others)" by simp
  from cache_ok_bucket [OF ok hit this] none show ?thesis by blast
next
  case True
  have "find (\<lambda>c. instance_of (h c) key) (e_components g) = None"
    using none by (simp add: find_None_iff)
  then show ?thesis using True by (simp add: getComponent_miss)
qed


lemma getComponent_found_attached:
  assumes ok: "cache_ok h g" and r: "snd (getComponent h g key) = Some c"
  shows "c \<in> set (e_components g)"
proof (cases "misses g key")
  case False
  with hit_or_miss [of g key] obtain first others
    where hit: "e_componentCache g key = Some (first # others)" by blast
  then have "first = c" using r by (simp add: getComponent_hit)
  moreover have "first \<in> set (first # others)" by simp
  ultimately show ?thesis using cache_ok_bucket(1) [OF ok hit] by blast
next
  case True
  show ?thesis
  proof (cases "find (\<lambda>c. instance_of (h c) key) (e_components g)")
    case None
    then show ?thesis using True r by (simp add: getComponent_miss)
  next
    case (Some d)
    then have "d = c" using True r by (simp add: getComponent_miss)
    then show ?thesis using Some by (auto simp: find_Some_iff)
  qed
qed

lemma removeComponent_found:
  assumes ok: "cache_ok h g" and r: "getComponent h g key = (g1, Some c)"
  shows "removeComponent h g key =
           (h(c := (h c)\<lparr>comp_gameObject := None\<rparr>),
            g1\<lparr>e_components := remove1 c (e_components g),
               e_componentCache := (\<lambda>k. map_option (remove1 c) (e_componentCache g1 k))\<rparr>)"
proof -
  have "snd (getComponent h g key) = Some c" using r by simp
  from getComponent_found_attached [OF ok this] have c: "c \<in> set (e_components g)" .
  have comps: "e_components g1 = e_components g"
    using cache_ok_getComponent(2) [OF ok, of key] r by simp
  have "splice1 (indexOf c (e_components g1)) (e_components g1) = remove1 c (e_components g)"
    using splice1_indexOf [OF c] comps by simp
  moreover have "purge c = remove1 c" by (rule ext) (rule purge_remove1)
  ultimately show ?thesis
    using r by (simp add: removeComponent_def Let_def)
qed

lemma removeComponent_missing:
  "getComponent h g key = (g1, None) \<Longrightarrow> removeComponent h g key = (h, g1)"
  by (simp add: removeComponent_def)

text \<open>Removing an attached component from the list and from every bucket keeps the
  invariant and leaves no trace of it.\<close>

lemma cache_ok_removed:
  assumes ok: "cache_ok h g" and c: "c \<in> set (e_components g)"
  shows "cache_ok (h(c := (h c)\<lparr>comp_gameObject := None\<rparr>))
           (g\<lparr>e_components := remove1 c (e_components g),
              e_componentCache := (\<lambda>k. map_option (remove1 c) (e_componentCache g k))\<rparr>)"
proof (rule cache_okI)
  let ?h = "h(c := (h c)\<lparr>comp_gameObject := None\<rparr>)"
  let ?g = "g\<lparr>e_components := remove1 c (e_components g),
              e_componentCache := (\<lambda>k. map_option (remove1 c) (e_componentCache g k))\<rparr>"
  have dist: "distinct (e_components g)" using cache_ok_components(1) [OF ok] .
  have comps: "set (e_components ?g) = set (e_components g) - {c}"
    using dist by simp
  have inst: "\<And>d k. instance_of (?h d) k = instance_of (h d) k"
    by (simp add: instance_of_def)
  show "distinct (e_components ?g)" using dist by simp
  show "\<And>d. d \<in> set (e_components ?g) \<Longrightarrow> comp_gameObject (?h d) \<noteq> None"
    using cache_ok_components(2) [OF ok] comps by auto
  show "\<And>k cached. e_componentCache ?g k = Some cached \<Longrightarrow> distinct cached"
  proof -
    fix k cached assume "e_componentCache ?g k = Some cached"
    then obtain old where old: "e_componentCache g k = Some old" "cached = remove1 c old"
      by auto
    then show "distinct cached" using cache_ok_bucket_distinct [OF ok old(1)] by simp
  qed
  show "\<And>k cached d. e_componentCache ?g k = Some cached \<Longrightarrow> d \<in> set cached
           \<Longrightarrow> d \<in> set (e_components ?g) \<and> instance_of (?h d) k"
  proof -
    fix k cached d assume "e_componentCache ?g k = Some cached" and d: "d \<in> set cached"
    then obtain old where old: "e_componentCache g k = Some old" "cached = remove1 c old"
      by auto
    have dold: "distinct old" using cache_ok_bucket_distinct [OF ok old(1)] .
    then have "d \<in> set old" "d \<noteq> c" using d old(2) by simp_all
    then show "d \<in> set (e_components ?g) \<and> instance_of (?h d) k"
      using cache_ok_bucket [OF ok old(1)] comps inst by simp
  qed
  show "\<And>d. d \<in> set (e_components ?g)
           \<Longrightarrow> \<exists>cached. e_componentCache ?g (comp_class (?h d)) = Some cached \<and> d \<in> set cached"
  proof -
    fix d assume "d \<in> set (e_components ?g)"
    then have d: "d \<in> set (e_components g)" "d \<noteq> c" using comps by simp_all
    from cache_ok_own [OF ok d(1)] obtain old
      where "e_componentCache g (comp_class (h d)) = Some old" "d \<in> set old" by blast
    then show "\<exists>cached. e_componentCache ?g (comp_class (?h d)) = Some cached \<and> d \<in> set cached"
      using d(2) by simp
  qed
qed

lemma removed_nowhere:
  assumes ok: "cache_ok h g"
  shows "c \<notin> set (remove1 c (e_components g))"
    and "map_option (remove1 c) (e_componentCache g k) = Some cached \<Longrightarrow> c \<notin> set cached"
proof -
  show "c \<notin> set (remove1 c (e_components g))"
    using cache_ok_components(1) [OF ok] by simp
  assume "map_option (remove1 c) (e_componentCache g k) = Some cached"
  then obtain old where old: "e_componentCache g k = Some old" "cached = remove1 c old"
    by auto
  then show "c \<notin> set cached" using cache_ok_bucket_distinct [OF ok old(1)] by simp
qed

lemma cache_ok_removeComponent:
  assumes ok: "cache_ok h g"
  shows "cache_ok (fst (removeComponent h g key)) (snd (removeComponent h g key))"
proof (cases "snd (getComponent h g key)")
  case None
  then have "getComponent h g key = (fst (getComponent h g key), None)"
    by (metis prod.collapse)
  from removeComponent_missing [OF this] show ?thesis
    using cache_ok_getComponent(1) [OF ok, of key] by simp
next
  case (Some c)
  let ?g1 = "fst (getComponent h g key)"
  have r: "getComponent h g key = (?g1, Some c)" using Some by (metis prod.collapse)
  have ok1: "cache_ok h ?g1" using cache_ok_getComponent(1) [OF ok] .
  have comps: "e_components ?g1 = e_components g" using cache_ok_getComponent(2) [OF ok] .
  have c: "c \<in> set (e_components ?g1)"
    using getComponent_found_attached [OF ok Some] comps by simp
  from cache_ok_removed [OF ok1 c] show ?thesis
    using removeComponent_found [OF ok r] comps by simp
qed

lemma cache_ok_new: "cache_ok h (new_GameObject i)"
  by (simp add: cache_ok_def new_GameObject_def)

lemma cache_ok_addComponent:
  assumes ok: "cache_ok h g"
  shows "cache_ok (fst (addComponent h g c)) (fst (snd (addComponent h g c)))"
proof (cases "comp_gameObject (h c)")
  case (Some owner)
  then show ?thesis using ok by (simp add: addComponent_def)
next
  case None
  let ?h1 = "h(c := (h c)\<lparr>comp_gameObject := Some (e_id g)\<rparr>)"
  let ?k = "comp_class (h c)"
  let ?g2 = "g\<lparr>e_components := e_components g @ [c],
               e_componentCache := bucket_push (e_componentCache g) ?k c\<rparr>"
  let ?h2 = "if e_started g \<and> e_scene g \<noteq> None
             then ?h1(c := (?h1 c)\<lparr>comp_started := True\<rparr>) else ?h1"
  have res: "addComponent h g c = (?h2, ?g2, Some c)"
    using None by (simp add: addComponent_def Let_def)
  have fresh: "c \<notin> set (e_components g)"
    using cache_ok_components(2) [OF ok] None by blast
  have cls: "\<And>d. comp_class (?h2 d) = comp_class (h d)" by simp
  have inst: "\<And>d k. instance_of (?h2 d) k = instance_of (h d) k"
    by (simp add: instance_of_def)
  have owner: "\<And>d. d \<in> set (e_components g) \<Longrightarrow> comp_gameObject (?h2 d) \<noteq> None"
    using cache_ok_components(2) [OF ok] by simp
  have owner_c: "comp_gameObject (?h2 c) \<noteq> None" by simp
  have same: "e_componentCache ?g2 ?k =
      Some ((case e_componentCache g ?k of None \<Rightarrow> [] | Some cached \<Rightarrow> cached) @ [c])"
    by (simp add: bucket_push_same)
  have other: "\<And>k. k \<noteq> ?k \<Longrightarrow> e_componentCache ?g2 k = e_componentCache g k"
    by (simp add: bucket_push_other)
  have "cache_ok ?h2 ?g2"
  proof (rule cache_okI)
    show "distinct (e_components ?g2)"
      using cache_ok_components(1) [OF ok] fresh by simp
    show "\<And>d. d \<in> set (e_components ?g2) \<Longrightarrow> comp_gameObject (?h2 d) \<noteq> None"
    proof -
      fix d assume "d \<in> set (e_components ?g2)"
      then have "d = c \<or> d \<in> set (e_components g)" by auto
      then show "comp_gameObject (?h2 d) \<noteq> None" using owner [of d] owner_c by blast
    qed
    show "\<And>k cached. e_componentCache ?g2 k = Some cached \<Longrightarrow> distinct cached"
    proof -
      fix k cached assume kc: "e_componentCache ?g2 k = Some cached"
      show "distinct cached"
      proof (cases "k = ?k")
        case False
        with kc other have "e_componentCache g k = Some cached" by simp
        then show ?thesis using cache_ok_bucket_distinct [OF ok] by blast
      next
        case True
        show ?thesis
        proof (cases "e_componentCache g ?k")
          case None
          with kc same True show ?thesis by simp
        next
          case (Some old)
          then have "cached = old @ [c]" using kc same True by simp
          moreover have "distinct old" using cache_ok_bucket_distinct [OF ok Some] .
          moreover have "c \<notin> set old" using cache_ok_bucket(1) [OF ok Some] fresh by blast
          ultimately show ?thesis by simp
        qed
      qed
    qed
    show "\<And>k cached d. e_componentCache ?g2 k = Some cached \<Longrightarrow> d \<in> set cached
           \<Longrightarrow> d \<in> set (e_components ?g2) \<and> instance_of (?h2 d) k"
    proof -
      fix k cached d assume kc: "e_componentCache ?g2 k = Some cached" and d: "d \<in> set cached"
      show "d \<in> set (e_components ?g2) \<and> instance_of (?h2 d) k"
      proof (cases "k = ?k")
        case False
        with kc other have "e_componentCache g k = Some cached" by simp
        from cache_ok_bucket [OF ok this d] show ?thesis using inst by simp
      next
        case True
        show ?thesis
        proof (cases "d = c")
          case True
          then show ?thesis using \<open>k = ?k\<close> inst by (simp add: instance_of_def)
        next
          case False
          then obtain old where old: "e_componentCache g ?k = Some old" "d \<in> set old"
            using kc same d True by (cases "e_componentCache g ?k") auto
          from cache_ok_bucket [OF ok old] show ?thesis using inst True by simp
        qed
      qed
    qed
    show "\<And>d. d \<in> set (e_components ?g2)
           \<Longrightarrow> \<exists>cached. e_componentCache ?g2 (comp_class (?h2 d)) = Some cached \<and> d \<in> set cached"
    proof -
      fix d assume d: "d \<in> set (e_components ?g2)"
      show "\<exists>cached. e_componentCache ?g2 (comp_class (?h2 d)) = Some cached \<and> d \<in> set cached"
      proof (cases "d = c")
        case True
        then show ?thesis using same cls by simp
      next
        case False
        with d have d': "d \<in> set (e_components g)" by simp
        from cache_ok_own [OF ok d'] obtain old
          where old: "e_componentCache g (comp_class (h d)) = Some old" "d \<in> set old" by blast
        show ?thesis
        proof (cases "comp_class (h d) = ?k")
          case True
          then show ?thesis using same old cls by simp
        next
          case False
          then show ?thesis using other old cls by simp
        qed
      qed
    qed
  qed
  then show ?thesis using res by simp
qed


lemma cache_ok_apply_op:
  assumes "cache_ok (fst s) (snd s)"
  shows "cache_ok (fst (apply_op s x)) (snd (apply_op s x))"
proof (cases x)
  case (AddComponent c)
  then show ?thesis using cache_ok_addComponent [OF assms] by simp
next
  case (GetComponent key)
  then show ?thesis using cache_ok_getComponent(1) [OF assms] by simp
next
  case (RemoveComponent key)
  then show ?thesis using cache_ok_removeComponent [OF assms] by simp
qed

lemma cache_ok_reachable:
  "cache_ok (fst s) (snd s) \<Longrightarrow> cache_ok (fst (foldl apply_op s ops)) (snd (foldl apply_op s ops))"
proof (induction ops arbitrary: s)
  case Nil
  then show ?case by simp
next
  case (Cons x ops)
  from Cons.IH [OF cache_ok_apply_op [OF Cons.prems]] show ?case by simp
qed

text \<open>
  C8. A game object in a state the methods can produce holds a component \<open>c\<close> of
  class \<open>S\<close>, an instance of \<open>B\<close>, and no other instance of \<open>B\<close> or \<open>S\<close>. Then
  \<open>getComponent(B)\<close> and \<open>getComponent(S)\<close> both return \<open>c\<close>, in either order of
  the calls, and the lookup leaves \<open>c\<close> in the bucket of the key asked for. After
  \<open>removeComponent\<close> with either key, \<open>c\<close> is not in the list of components and not
  in any bucket, it has no owner, and both lookups return null.
\<close>

theorem polymorphic_lookup:
  assumes ok: "cache_ok h g"
    and c: "c \<in> set (e_components g)" "comp_class (h c) = S" "instance_of (h c) B"
    and only: "\<forall>d \<in> set (e_components g). d \<noteq> c \<longrightarrow> \<not> instance_of (h d) B \<and> \<not> instance_of (h d) S"
    and K: "K = B \<or> K = S"
  shows "snd (getComponent h g B) = Some c
       \<and> snd (getComponent h g S) = Some c
       \<and> snd (getComponent h (fst (getComponent h g B)) S) = Some c
       \<and> snd (getComponent h (fst (getComponent h g S)) B) = Some c
       \<and> (\<exists>cached. e_componentCache (fst (getComponent h g K)) K = Some cached \<and> c \<in> set cached)
       \<and> c \<notin> set (e_components (snd (removeComponent h g K)))
       \<and> (\<forall>key cached. e_componentCache (snd (removeComponent h g K)) key = Some cached
              \<longrightarrow> c \<notin> set cached)
       \<and> comp_gameObject (fst (removeComponent h g K) c) = None
       \<and> snd (getComponent (fst (removeComponent h g K)) (snd (removeComponent h g K)) B) = None
       \<and> snd (getComponent (fst (removeComponent h g K)) (snd (removeComponent h g K)) S) = None"
proof -
  have cS: "instance_of (h c) S" using c(2) by (auto simp: instance_of_def)
  have onlyB: "\<forall>d \<in> set (e_components g). instance_of (h d) B \<longrightarrow> d = c" using only by blast
  have onlyS: "\<forall>d \<in> set (e_components g). instance_of (h d) S \<longrightarrow> d = c" using only by blast
  have cK: "instance_of (h c) K" using K c(3) cS by blast
  have onlyK: "\<forall>d \<in> set (e_components g). instance_of (h d) K \<longrightarrow> d = c"
    using K onlyB onlyS by blast
  note gB = getComponent_only [OF ok c(1) c(3) onlyB]
  note gS = getComponent_only [OF ok c(1) cS onlyS]
  note gK = getComponent_only [OF ok c(1) cK onlyK]
  have gBS: "snd (getComponent h (fst (getComponent h g B)) S) = Some c"
  proof -
    have ok1: "cache_ok h (fst (getComponent h g B))"
      and comps: "e_components (fst (getComponent h g B)) = e_components g"
      using cache_ok_getComponent [OF ok] by blast+
    have c1: "c \<in> set (e_components (fst (getComponent h g B)))"
      unfolding comps by (rule c(1))
    have only1: "\<forall>d \<in> set (e_components (fst (getComponent h g B))). instance_of (h d) S \<longrightarrow> d = c"
      unfolding comps by (rule onlyS)
    show ?thesis by (rule getComponent_only(1) [OF ok1 c1 cS only1])
  qed
  have gSB: "snd (getComponent h (fst (getComponent h g S)) B) = Some c"
  proof -
    have ok1: "cache_ok h (fst (getComponent h g S))"
      and comps: "e_components (fst (getComponent h g S)) = e_components g"
      using cache_ok_getComponent [OF ok] by blast+
    have c1: "c \<in> set (e_components (fst (getComponent h g S)))"
      unfolding comps by (rule c(1))
    have only1: "\<forall>d \<in> set (e_components (fst (getComponent h g S))). instance_of (h d) B \<longrightarrow> d = c"
      unfolding comps by (rule onlyB)
    show ?thesis by (rule getComponent_only(1) [OF ok1 c1 c(3) only1])
  qed
  let ?g1 = "fst (getComponent h g K)"
  let ?h' = "h(c := (h c)\<lparr>comp_gameObject := None\<rparr>)"
  let ?g' = "?g1\<lparr>e_components := remove1 c (e_components ?g1),
                 e_componentCache := (\<lambda>k. map_option (remove1 c) (e_componentCache ?g1 k))\<rparr>"
  have ok1: "cache_ok h ?g1" and comps1: "e_components ?g1 = e_components g"
    using cache_ok_getComponent [OF ok] by blast+
  have r: "getComponent h g K = (?g1, Some c)" using gK(1) by (metis prod.collapse)
  have rem: "removeComponent h g K = (?h', ?g')"
    using removeComponent_found [OF ok r] comps1 by simp
  have c1: "c \<in> set (e_components ?g1)" using c(1) comps1 by simp
  have ok': "cache_ok ?h' ?g'" using cache_ok_removed [OF ok1 c1] .
  have gone: "c \<notin> set (e_components ?g')" using removed_nowhere(1) [OF ok1] by simp
  have gone_cache: "\<forall>key cached. e_componentCache ?g' key = Some cached \<longrightarrow> c \<notin> set cached"
    using removed_nowhere(2) [OF ok1] by simp
  have rest: "\<forall>d \<in> set (e_components ?g'). \<not> instance_of (?h' d) B \<and> \<not> instance_of (?h' d) S"
  proof
    fix d assume d: "d \<in> set (e_components ?g')"
    then have "d \<noteq> c" using gone by blast
    moreover have "d \<in> set (e_components g)"
      using d comps1 set_remove1_subset [of c "e_components g"] by auto
    ultimately have "\<not> instance_of (h d) B \<and> \<not> instance_of (h d) S"
      using only by blast
    moreover have "\<And>k. instance_of (?h' d) k = instance_of (h d) k"
      by (simp add: instance_of_def)
    ultimately show "\<not> instance_of (?h' d) B \<and> \<not> instance_of (?h' d) S" by blast
  qed
  have restB: "\<forall>d \<in> set (e_components ?g'). \<not> instance_of (?h' d) B" using rest by blast
  have restS: "\<forall>d \<in> set (e_components ?g'). \<not> instance_of (?h' d) S" using rest by blast
  have nB: "snd (getComponent ?h' ?g' B) = None"
    by (simp only: getComponent_none [OF ok' restB] snd_conv)
  have nS: "snd (getComponent ?h' ?g' S) = None"
    by (simp only: getComponent_none [OF ok' restS] snd_conv)
  have det: "comp_gameObject (?h' c) = None" by simp
  show ?thesis
    unfolding rem fst_conv snd_conv
    using gB(1) gS(1) gBS gSB gK(2) gone gone_cache det nB nS by blast
qed


theorem polymorphic_lookup_witness:
  "cache_ok (fst example_entity) (snd example_entity)
   \<and> (0::nat) \<in> set (e_components (snd example_entity))
   \<and> comp_class (fst example_entity 0) = ''PlatformerPlayer''
   \<and> instance_of (fst example_entity 0) ''Player''
   \<and> e_components (snd example_entity) = [1, 0]
   \<and> \<not> instance_of (fst example_entity 1) ''Player''
   \<and> \<not> instance_of (fst example_entity 1) ''PlatformerPlayer''
   \<and> snd (getComponent (fst example_entity) (snd example_entity) ''Player'') = Some 0
   \<and> snd (getComponent (fst example_entity) (snd example_entity) ''PlatformerPlayer'') = Some 0
   \<and> 0 \<notin> set (e_components (snd (removeComponent (fst example_entity) (snd example_entity) ''Player'')))
   \<and> snd (getComponent (fst (removeComponent (fst example_entity) (snd example_entity) ''Player''))
                        (snd (removeComponent (fst example_entity) (snd example_entity) ''Player''))
                        ''PlatformerPlayer'') = None"
proof -
  have ok: "cache_ok (fst example_entity) (snd example_entity)"
    unfolding example_entity_def
    by (rule cache_ok_reachable) (simp add: cache_ok_new)
  have comps: "e_components (snd example_entity) = [1, 0]" by code_simp
  have c1: "(0::nat) \<in> set (e_components (snd example_entity))" using comps by simp
  have c2: "comp_class (fst example_entity 0) = ''PlatformerPlayer''" by code_simp
  have c3: "instance_of (fst example_entity 0) ''Player''" by code_simp
  have o1: "\<not> instance_of (fst example_entity 1) ''Player''"
    and o2: "\<not> instance_of (fst example_entity 1) ''PlatformerPlayer''" by code_simp+
  have only: "\<forall>d \<in> set (e_components (snd example_entity)). d \<noteq> 0 \<longrightarrow>
                \<not> instance_of (fst example_entity d) ''Player''
                \<and> \<not> instance_of (fst example_entity d) ''PlatformerPlayer''"
    using comps o1 o2 by simp
  have K: "''Player'' = ''Player'' \<or> ''Player'' = ''PlatformerPlayer''" by simp
  from polymorphic_lookup [OF ok c1 c2 c3 only K]
  show ?thesis using ok c1 c2 c3 comps o1 o2 by blast
qed



end
